theory Spec2Isabelle
  imports Complex_Main
begin

section \<open>Python numbers\<close>

text \<open>
  Python integers are modelled by \<^typ>\<open>int\<close>, strings by \<^typ>\<open>string\<close>, dictionaries by
  maps. The exceptions the modelled code can reach are values of \<open>py_error\<close>.
\<close>

datatype py_error =
  ZeroDivisionError | IndexError | ValueError | OverflowError | TypeError | Cv2Error

text \<open>
  A Python float is an IEEE 754 binary64 number: a finite value, an infinity or NaN. A
  finite double is represented by its real value (the two zeros are not told apart; no
  modelled decision depends on the sign of a zero).
\<close>

datatype pyfloat = Finite real | PosInf | NegInf | NaN

text \<open>
  Rounding of a real to the nearest double, ties to the even significand: the value is
  scaled by the power of two that brings it to 53 significant bits (never below the
  least exponent, \<open>-1074\<close>, of the subnormal range) and rounded to an integer there.
  A result of magnitude \<open>2 ^ 1024\<close> or more is an overflow to infinity.
\<close>

definition round_half_even :: "real \<Rightarrow> int" where
  "round_half_even y =
     (if y - of_int \<lfloor>y\<rfloor> < 1/2 then \<lfloor>y\<rfloor>
      else if 1/2 < y - of_int \<lfloor>y\<rfloor> then \<lfloor>y\<rfloor> + 1
      else if even \<lfloor>y\<rfloor> then \<lfloor>y\<rfloor> else \<lfloor>y\<rfloor> + 1)"

definition ulp_exponent :: "real \<Rightarrow> int" where
  "ulp_exponent x = max (\<lfloor>log 2 \<bar>x\<bar>\<rfloor> - 52) (- 1074)"

definition double_round :: "real \<Rightarrow> real" where
  "double_round x =
     (if x = 0 then 0
      else of_int (round_half_even (x / 2 powi ulp_exponent x)) * 2 powi ulp_exponent x)"

definition to_double :: "real \<Rightarrow> pyfloat" where
  "to_double x =
     (let r = double_round x
      in if 2 ^ 1024 \<le> r then PosInf else if r \<le> - (2 ^ 1024) then NegInf else Finite r)"

text \<open>A decimal literal of the source, such as \<^verbatim>\<open>0.05\<close>: the double nearest to it.\<close>

definition py_literal :: "real \<Rightarrow> pyfloat" where
  "py_literal r = Finite (double_round r)"

text \<open>
  The conversion of an integer operand to a float (rounded; \<^verbatim>\<open>OverflowError\<close> when the
  integer is too large), and \<^verbatim>\<open>int(x)\<close> on a float (truncation toward zero;
  \<^verbatim>\<open>ValueError\<close> on NaN, \<^verbatim>\<open>OverflowError\<close> on an infinity).
\<close>

definition float_of_int :: "int \<Rightarrow> py_error + pyfloat" where
  "float_of_int k =
     (case to_double (of_int k) of Finite r \<Rightarrow> Inr (Finite r) | _ \<Rightarrow> Inl OverflowError)"

definition py_trunc :: "real \<Rightarrow> int" where
  "py_trunc x = (if 0 \<le> x then \<lfloor>x\<rfloor> else \<lceil>x\<rceil>)"

definition py_int :: "pyfloat \<Rightarrow> py_error + int" where
  "py_int a =
     (case a of
        Finite x \<Rightarrow> Inr (py_trunc x)
      | NaN \<Rightarrow> Inl ValueError
      | _ \<Rightarrow> Inl OverflowError)"

text \<open>
  Float arithmetic: the exact result rounded, with the IEEE rules for infinities and
  NaN. Python's \<^verbatim>\<open>/\<close> raises \<^verbatim>\<open>ZeroDivisionError\<close> on a zero divisor.
\<close>

definition fsign :: "pyfloat \<Rightarrow> real" where
  "fsign a = (case a of Finite x \<Rightarrow> sgn x | PosInf \<Rightarrow> 1 | NegInf \<Rightarrow> - 1 | NaN \<Rightarrow> 0)"

definition inf_of_sign :: "real \<Rightarrow> pyfloat" where
  "inf_of_sign s = (if s = 0 then NaN else if 0 < s then PosInf else NegInf)"

definition fneg :: "pyfloat \<Rightarrow> pyfloat" where
  "fneg a = (case a of Finite x \<Rightarrow> Finite (- x) | PosInf \<Rightarrow> NegInf | NegInf \<Rightarrow> PosInf
             | NaN \<Rightarrow> NaN)"

definition fabs :: "pyfloat \<Rightarrow> pyfloat" where
  "fabs a = (case a of Finite x \<Rightarrow> Finite \<bar>x\<bar> | PosInf \<Rightarrow> PosInf | NegInf \<Rightarrow> PosInf
             | NaN \<Rightarrow> NaN)"

definition fadd :: "pyfloat \<Rightarrow> pyfloat \<Rightarrow> pyfloat" where
  "fadd a b =
     (case (a, b) of
        (Finite x, Finite y) \<Rightarrow> to_double (x + y)
      | (NaN, _) \<Rightarrow> NaN
      | (_, NaN) \<Rightarrow> NaN
      | (Finite x, _) \<Rightarrow> b
      | (_, Finite y) \<Rightarrow> a
      | _ \<Rightarrow> if a = b then a else NaN)"

definition fsub :: "pyfloat \<Rightarrow> pyfloat \<Rightarrow> pyfloat" where
  "fsub a b = fadd a (fneg b)"

definition fmul :: "pyfloat \<Rightarrow> pyfloat \<Rightarrow> pyfloat" where
  "fmul a b =
     (case (a, b) of
        (Finite x, Finite y) \<Rightarrow> to_double (x * y)
      | (NaN, _) \<Rightarrow> NaN
      | (_, NaN) \<Rightarrow> NaN
      | _ \<Rightarrow> inf_of_sign (fsign a * fsign b))"

definition fquot :: "pyfloat \<Rightarrow> pyfloat \<Rightarrow> pyfloat" where
  "fquot a b =
     (case (a, b) of
        (Finite x, Finite y) \<Rightarrow> to_double (x / y)
      | (NaN, _) \<Rightarrow> NaN
      | (_, NaN) \<Rightarrow> NaN
      | (Finite x, _) \<Rightarrow> Finite 0
      | (_, Finite y) \<Rightarrow> inf_of_sign (fsign a * fsign b)
      | _ \<Rightarrow> NaN)"

definition fdiv :: "pyfloat \<Rightarrow> pyfloat \<Rightarrow> py_error + pyfloat" where
  "fdiv a b = (if b = Finite 0 then Inl ZeroDivisionError else Inr (fquot a b))"

text \<open>
  Comparison of a float with an integer (or with another exactly known number): Python
  compares the exact values, and every comparison with NaN is false.
\<close>

definition lt_real :: "pyfloat \<Rightarrow> real \<Rightarrow> bool" where
  "lt_real a r = (case a of Finite x \<Rightarrow> x < r | NegInf \<Rightarrow> True | _ \<Rightarrow> False)"

definition gt_real :: "pyfloat \<Rightarrow> real \<Rightarrow> bool" where
  "gt_real a r = (case a of Finite x \<Rightarrow> r < x | PosInf \<Rightarrow> True | _ \<Rightarrow> False)"

text \<open>
  The built-in \<^verbatim>\<open>sum\<close> over floats adds from left to right, starting from the integer 0.
  (CPython from 3.12 on carries a compensation term through the same scan; the functions
  below take the summation as a parameter, and \<open>seq_sum\<close> is used for concrete lists.)
\<close>

definition seq_sum :: "pyfloat list \<Rightarrow> pyfloat" where
  "seq_sum xs = foldl fadd (Finite 0) xs"

text \<open>
  \<^verbatim>\<open>sum(xs) / len(xs)\<close>: the division raises on an empty list. A list length is far below
  \<open>2 ^ 53\<close>, so its conversion to a float is exact.
\<close>

definition py_mean :: "(pyfloat list \<Rightarrow> pyfloat) \<Rightarrow> pyfloat list \<Rightarrow> py_error + pyfloat" where
  "py_mean fsum xs =
     (if length xs = 0 then Inl ZeroDivisionError
      else fdiv (fsum xs) (Finite (real (length xs))))"

text \<open>\<^verbatim>\<open>xs[-n:]\<close> for a positive \<open>n\<close>: the last \<open>n\<close> elements (all of them when there are fewer).\<close>

definition last_n :: "nat \<Rightarrow> 'a list \<Rightarrow> 'a list" where
  "last_n n xs = drop (length xs - n) xs"

section \<open>counter.py\<close>

text \<open>
  \<^verbatim>\<open>VehicleRecord\<close> (fields prefixed \<open>r_\<close>), \<^verbatim>\<open>CountingStats\<close> and the state of a
  \<^verbatim>\<open>VehicleCounter\<close>. The two-key dictionaries \<^verbatim>\<open>{'entrada': 0, 'saida': 0}\<close> held by
  \<^verbatim>\<open>por_cor\<close> and \<^verbatim>\<open>por_tipo\<close> are pairs (entrada, saida); the \<^verbatim>\<open>defaultdict\<close> creates
  the pair (0, 0) on first access. The timestamp of a record is only stored.
\<close>

record VehicleRecord =
  r_track_id :: int
  r_direction :: string
  r_color :: string
  r_vehicle_type :: string
  r_timestamp :: real

record CountingStats =
  total_entrada :: int
  total_saida :: int
  por_cor :: "string \<rightharpoonup> int \<times> int"
  por_tipo :: "string \<rightharpoonup> int \<times> int"
  registros :: "VehicleRecord list"

definition CountingStats_new :: CountingStats where
  "CountingStats_new =
     \<lparr>total_entrada = 0, total_saida = 0, por_cor = Map.empty, por_tipo = Map.empty,
      registros = []\<rparr>"

record VehicleCounter =
  frame_height :: int
  line_y :: int
  zone_margin :: int
  counted_vehicles :: "int set"
  position_history :: "int \<rightharpoonup> pyfloat list"
  stats :: CountingStats

text \<open>
  A tracked vehicle, the dictionary \<^verbatim>\<open>update\<close> reads: \<^verbatim>\<open>track_id\<close> and \<^verbatim>\<open>class_name\<close> are
  read with \<^verbatim>\<open>.get\<close> and may be absent, \<^verbatim>\<open>bbox\<close> is the tracker's list of four floats
  \<^verbatim>\<open>[x1, y1, x2, y2]\<close>.
\<close>

record tracked_vehicle =
  v_track_id :: "int option"
  v_bbox :: "pyfloat \<times> pyfloat \<times> pyfloat \<times> pyfloat"
  v_class_name :: "string option"

text \<open>
  \<^verbatim>\<open>int(k * a)\<close> for an integer \<open>k\<close> and a float \<open>a\<close>: the integer is converted to a
  float, the product is taken in double precision and truncated.
\<close>

definition int_of_product :: "int \<Rightarrow> pyfloat \<Rightarrow> py_error + int" where
  "int_of_product k a =
     (case float_of_int k of Inl e \<Rightarrow> Inl e | Inr f \<Rightarrow> py_int (fmul f a))"

text \<open>
  \<^verbatim>\<open>__init__\<close>: \<^verbatim>\<open>line_y = int(frame_height * line_position)\<close> and
  \<^verbatim>\<open>zone_margin = int(frame_height * 0.05)\<close>. No other statement of the constructor can
  raise, and none tests a range.
\<close>

definition VehicleCounter_init :: "int \<Rightarrow> pyfloat \<Rightarrow> py_error + VehicleCounter" where
  "VehicleCounter_init fh line_position =
     (case int_of_product fh line_position of
        Inl e \<Rightarrow> Inl e
      | Inr ly \<Rightarrow>
          (case int_of_product fh (py_literal 0.05) of
             Inl e \<Rightarrow> Inl e
           | Inr zm \<Rightarrow>
               Inr \<lparr>frame_height = fh, line_y = ly, zone_margin = zm,
                    counted_vehicles = {}, position_history = Map.empty,
                    stats = CountingStats_new\<rparr>))"

text \<open>
  \<^verbatim>\<open>_crossed_line\<close>: \<^verbatim>\<open>abs(current_y - self.line_y) < self.zone_margin\<close>. The subtraction
  converts the integer \<^verbatim>\<open>line_y\<close> to a float and rounds the difference; the comparison
  with the integer margin is exact.
\<close>

definition crossed_line :: "VehicleCounter \<Rightarrow> int \<Rightarrow> pyfloat \<Rightarrow> py_error + bool" where
  "crossed_line c tid current_y =
     (case float_of_int (line_y c) of
        Inl e \<Rightarrow> Inl e
      | Inr l \<Rightarrow> Inr (lt_real (fabs (fsub current_y l)) (real_of_int (zone_margin c))))"

text \<open>
  \<^verbatim>\<open>_get_direction\<close> on the history list of the track: every operation on the positions
  is a float operation, and the thresholds are compared with the computed difference.
\<close>

definition direction_of ::
  "(pyfloat list \<Rightarrow> pyfloat) \<Rightarrow> pyfloat list \<Rightarrow> py_error + string option" where
  "direction_of fsum positions =
     (if length positions < 5 then Inr None
      else
        let start_positions = take (length positions div 2) positions;
            end_positions = drop (length positions div 2) positions
        in case py_mean fsum start_positions of
             Inl e \<Rightarrow> Inl e
           | Inr avg_start \<Rightarrow>
               (case py_mean fsum end_positions of
                  Inl e \<Rightarrow> Inl e
                | Inr avg_end \<Rightarrow>
                    (let movement = fsub avg_end avg_start
                     in if gt_real movement 20 then Inr (Some ''entrada'')
                        else if lt_real movement (- 20) then Inr (Some ''saida'')
                        else Inr None)))"

definition get_direction ::
  "(pyfloat list \<Rightarrow> pyfloat) \<Rightarrow> VehicleCounter \<Rightarrow> int \<Rightarrow> py_error + string option" where
  "get_direction fsum c tid =
     direction_of fsum (case position_history c tid of None \<Rightarrow> [] | Some ps \<Rightarrow> ps)"

text \<open>
  \<^verbatim>\<open>d[key][direction] += 1\<close> on one of the breakdown dictionaries. The direction is one
  of the two keys of the inner dictionary: \<^verbatim>\<open>_get_direction\<close> returns no other string.
\<close>

definition bump :: "(string \<rightharpoonup> int \<times> int) \<Rightarrow> string \<Rightarrow> string \<Rightarrow> (string \<rightharpoonup> int \<times> int)" where
  "bump d key dir =
     (let (e, s) = (case d key of None \<Rightarrow> (0, 0) | Some p \<Rightarrow> p)
      in d(key \<mapsto> (if dir = ''entrada'' then (e + 1, s) else (e, s + 1))))"

text \<open>The statements of \<^verbatim>\<open>update\<close> that register a counted vehicle.\<close>

definition register_count ::
  "VehicleCounter \<Rightarrow> (int \<rightharpoonup> string) \<Rightarrow> real \<Rightarrow> tracked_vehicle \<Rightarrow> int \<Rightarrow> string \<Rightarrow> VehicleCounter" where
  "register_count c colors ts v tid dir =
     (let color = (case colors tid of None \<Rightarrow> ''indefinido'' | Some col \<Rightarrow> col);
          vtype = (case v_class_name v of None \<Rightarrow> ''car'' | Some n \<Rightarrow> n);
          record = \<lparr>r_track_id = tid, r_direction = dir, r_color = color,
                    r_vehicle_type = vtype, r_timestamp = ts\<rparr>;
          s = stats c;
          s1 = s\<lparr>registros := registros s @ [record]\<rparr>;
          s2 = (if dir = ''entrada'' then s1\<lparr>total_entrada := total_entrada s1 + 1\<rparr>
                else s1\<lparr>total_saida := total_saida s1 + 1\<rparr>);
          s3 = s2\<lparr>por_cor := bump (por_cor s2) color dir,
                   por_tipo := bump (por_tipo s2) vtype dir\<rparr>
      in c\<lparr>counted_vehicles := insert tid (counted_vehicles c), stats := s3\<rparr>)"

text \<open>
  The statements of \<^verbatim>\<open>update\<close> that append the centre to the track's history (created
  empty by the \<^verbatim>\<open>defaultdict\<close> on first access) and keep its last 30 entries.
\<close>

definition append_position :: "VehicleCounter \<Rightarrow> int \<Rightarrow> pyfloat \<Rightarrow> VehicleCounter" where
  "append_position c tid center_y =
     (let hist = (case position_history c tid of None \<Rightarrow> [] | Some h \<Rightarrow> h) @ [center_y];
          hist' = (if length hist > 30 then last_n 30 hist else hist)
      in c\<lparr>position_history := (position_history c)(tid \<mapsto> hist')\<rparr>)"

text \<open>The vertical centre of a box: \<^verbatim>\<open>(bbox[1] + bbox[3]) / 2\<close>, in float arithmetic.\<close>

definition center_y_of :: "tracked_vehicle \<Rightarrow> py_error + pyfloat" where
  "center_y_of v = (case v_bbox v of (x1, y1, x2, y2) \<Rightarrow> fdiv (fadd y1 y2) (Finite 2))"

text \<open>
  One iteration of the loop of \<^verbatim>\<open>update\<close>: the new state and the pairs appended to
  \<^verbatim>\<open>newly_counted\<close> (none or one). \<^verbatim>\<open>if direction:\<close> is Python truthiness: \<^verbatim>\<open>None\<close> and the
  empty string are false.
\<close>

definition update_vehicle_step ::
  "(pyfloat list \<Rightarrow> pyfloat) \<Rightarrow> VehicleCounter \<Rightarrow> (int \<rightharpoonup> string) \<Rightarrow> real \<Rightarrow> tracked_vehicle
     \<Rightarrow> py_error + (VehicleCounter \<times> (int \<times> string) list)" where
  "update_vehicle_step fsum c colors ts v =
     (let tid = (case v_track_id v of None \<Rightarrow> - 1 | Some t \<Rightarrow> t)
      in if tid < 0 then Inr (c, [])
         else
           (case center_y_of v of
              Inl e \<Rightarrow> Inl e
            | Inr center_y \<Rightarrow>
                let c1 = append_position c tid center_y
                in if tid \<in> counted_vehicles c1 then Inr (c1, [])
                   else
                     (case crossed_line c1 tid center_y of
                        Inl e \<Rightarrow> Inl e
                      | Inr False \<Rightarrow> Inr (c1, [])
                      | Inr True \<Rightarrow>
                          (case get_direction fsum c1 tid of
                             Inl e \<Rightarrow> Inl e
                           | Inr None \<Rightarrow> Inr (c1, [])
                           | Inr (Some dir) \<Rightarrow>
                               if dir = [] then Inr (c1, [])
                               else Inr (register_count c1 colors ts v tid dir, [(tid, dir)])))))"

text \<open>The loop of \<^verbatim>\<open>update\<close> over the tracked vehicles, with \<^verbatim>\<open>newly_counted\<close> as accumulator.\<close>

fun update_loop ::
  "(pyfloat list \<Rightarrow> pyfloat) \<Rightarrow> VehicleCounter \<Rightarrow> (int \<rightharpoonup> string) \<Rightarrow> real \<Rightarrow> tracked_vehicle list
     \<Rightarrow> (int \<times> string) list \<Rightarrow> py_error + (VehicleCounter \<times> (int \<times> string) list)" where
  "update_loop fsum c colors ts [] newly_counted = Inr (c, newly_counted)"
| "update_loop fsum c colors ts (v # vs) newly_counted =
     (case update_vehicle_step fsum c colors ts v of
        Inl e \<Rightarrow> Inl e
      | Inr (c', out) \<Rightarrow> update_loop fsum c' colors ts vs (newly_counted @ out))"

definition update ::
  "(pyfloat list \<Rightarrow> pyfloat) \<Rightarrow> VehicleCounter \<Rightarrow> tracked_vehicle list \<Rightarrow> (int \<rightharpoonup> string) \<Rightarrow> real
     \<Rightarrow> py_error + (VehicleCounter \<times> (int \<times> string) list)" where
  "update fsum c tracked_vehicles colors ts = update_loop fsum c colors ts tracked_vehicles []"

text \<open>
  A sequence of calls of \<^verbatim>\<open>update\<close> on one counter, each with its arguments: the final
  state and all the pairs the calls returned, in order.
\<close>

fun run_updates ::
  "(pyfloat list \<Rightarrow> pyfloat) \<Rightarrow> VehicleCounter
     \<Rightarrow> (tracked_vehicle list \<times> (int \<rightharpoonup> string) \<times> real) list
     \<Rightarrow> py_error + (VehicleCounter \<times> (int \<times> string) list)" where
  "run_updates fsum c [] = Inr (c, [])"
| "run_updates fsum c ((vs, colors, ts) # calls) =
     (case update fsum c vs colors ts of
        Inl e \<Rightarrow> Inl e
      | Inr (c', out) \<Rightarrow>
          (case run_updates fsum c' calls of
             Inl e \<Rightarrow> Inl e
           | Inr (c'', outs) \<Rightarrow> Inr (c'', out @ outs)))"

text \<open>
  The direction rule in the specification's words, on exact numbers: the mean of the
  second half of the history minus the mean of the first half, the history split at
  \<open>len div 2\<close>. The value of a finite float is \<open>value_of\<close>.
\<close>

definition value_of :: "pyfloat \<Rightarrow> real" where
  "value_of a = (case a of Finite x \<Rightarrow> x | _ \<Rightarrow> 0)"

definition half_split_movement :: "real list \<Rightarrow> real" where
  "half_split_movement ps =
     sum_list (drop (length ps div 2) ps) / real (length (drop (length ps div 2) ps))
     - sum_list (take (length ps div 2) ps) / real (length (take (length ps div 2) ps))"

text \<open>
  The same difference as the code computes it: each half summed, divided by its length
  and the two means subtracted, every step in float arithmetic.
\<close>

definition computed_movement :: "(pyfloat list \<Rightarrow> pyfloat) \<Rightarrow> pyfloat list \<Rightarrow> pyfloat" where
  "computed_movement fsum ps =
     fsub (fquot (fsum (drop (length ps div 2) ps))
                 (Finite (real (length (drop (length ps div 2) ps)))))
          (fquot (fsum (take (length ps div 2) ps))
                 (Finite (real (length (take (length ps div 2) ps)))))"

text \<open>
  The derived geometry in the specification's words, with rounding to the nearest
  integer.
\<close>

definition spec_line_y :: "int \<Rightarrow> real \<Rightarrow> int" where
  "spec_line_y fh line_position = round (real_of_int fh * line_position)"

definition spec_zone_margin :: "int \<Rightarrow> int" where
  "spec_zone_margin fh = round (real_of_int fh * 0.05)"

text \<open>
  The specification's end-to-end scenario: frame height 600, line at 0.5, track 7 seen
  in seven consecutive frames with the given vertical centres, colour \<^verbatim>\<open>azul\<close>.
\<close>

definition counter_600 :: VehicleCounter where
  "counter_600 =
     \<lparr>frame_height = 600, line_y = 300, zone_margin = 30, counted_vehicles = {},
      position_history = Map.empty, stats = CountingStats_new\<rparr>"

definition vehicle_at :: "int \<Rightarrow> real \<Rightarrow> tracked_vehicle" where
  "vehicle_at tid cy =
     \<lparr>v_track_id = Some tid,
      v_bbox = (Finite 0, Finite (cy - 10), Finite 50, Finite (cy + 10)),
      v_class_name = Some ''car''\<rparr>"

definition scenario_calls :: "(tracked_vehicle list \<times> (int \<rightharpoonup> string) \<times> real) list" where
  "scenario_calls =
     map (\<lambda>cy. ([vehicle_at 7 cy], [7 \<mapsto> ''azul''], 0)) [100, 150, 200, 250, 310, 330, 350]"

text \<open>
  A history of half-pixel centres whose halves have means that differ by exactly 20.
\<close>

definition boundary_history :: "real list" where
  "boundary_history = [101/2, 52, 57, 131/2, 75, 79]"

section \<open>analytics.py\<close>

text \<open>
  \<^verbatim>\<open>VehicleMetrics\<close> (fields that clash with other records prefixed \<open>m_\<close>), an alert
  dictionary (fields prefixed \<open>a_\<close>) and the state of \<^verbatim>\<open>AdvancedAnalytics\<close>. The text of
  an alert's message is an f-string over the track id and one number; the model keeps
  those two arguments.
\<close>

record VehicleMetrics =
  m_track_id :: int
  entry_time :: real
  exit_time :: real
  entry_position :: "real \<times> real"
  exit_position :: "real \<times> real"
  positions :: "(real \<times> real \<times> real) list"
  m_color :: string
  m_vehicle_type :: string
  speed_estimates :: "real list"
  m_direction :: string
  counted :: bool

datatype alert_message = Dwell_message int real | Speed_message int real

record alert =
  a_type :: string
  a_track_id :: int
  a_message :: alert_message
  a_timestamp :: real
  a_severity :: string

record AdvancedAnalytics =
  fps :: int
  pixels_per_meter :: real
  vehicles :: "int \<rightharpoonup> VehicleMetrics"
  total_vehicles :: int
  vehicles_in_scene :: int
  flow_per_minute :: "(real \<times> int) list"
  speed_history :: "real list"
  dwell_times :: "real list"
  density_history :: "(real \<times> int) list"
  alerts :: "alert list"
  hourly_flow :: "int \<rightharpoonup> int"
  start_time :: real

text \<open>The dataclass defaults of a \<^verbatim>\<open>VehicleMetrics\<close> created by \<^verbatim>\<open>update_vehicle\<close>.\<close>

definition VehicleMetrics_new :: "int \<Rightarrow> real \<Rightarrow> real \<times> real \<Rightarrow> VehicleMetrics" where
  "VehicleMetrics_new tid ts pos =
     \<lparr>m_track_id = tid, entry_time = ts, exit_time = 0, entry_position = pos,
      exit_position = (0, 0), positions = [], m_color = ''indefinido'',
      m_vehicle_type = ''car'', speed_estimates = [], m_direction = [], counted = False\<rparr>"

text \<open>
  \<^verbatim>\<open>__init__\<close>; the wall-clock reading \<^verbatim>\<open>time.time()\<close> is the argument \<open>now\<close>.
\<close>

definition AdvancedAnalytics_init :: "int \<Rightarrow> real \<Rightarrow> real \<Rightarrow> AdvancedAnalytics" where
  "AdvancedAnalytics_init fps_arg ppm now =
     \<lparr>fps = fps_arg, pixels_per_meter = ppm, vehicles = Map.empty, total_vehicles = 0,
      vehicles_in_scene = 0, flow_per_minute = [], speed_history = [], dwell_times = [],
      density_history = [], alerts = [], hourly_flow = Map.empty, start_time = now\<rparr>"



text \<open>
  In this module a float is represented by its real value: the timestamps, positions
  and speeds are finite doubles. The rounding of an operation is written out where a
  decision of the code is taken on its result: the subtraction that gives the dwell
  time, \<^verbatim>\<open>timestamp - vehicle.entry_time\<close>, and the mean of the speed samples.

  \<^verbatim>\<open>np.mean\<close> of a list of floats is the parameter \<open>np_mean\<close>: NumPy sums in an order of
  its own and divides by the length, in double precision. \<open>seq_mean\<close> is the mean with
  the samples added from left to right, used on concrete lists.
\<close>

definition seq_mean :: "real list \<Rightarrow> real" where
  "seq_mean xs = double_round (foldl (\<lambda>s x. double_round (s + x)) 0 xs / real (length xs))"

text \<open>
  \<^verbatim>\<open>_check_alerts\<close>. Each alert reads the wall clock when it is built: \<open>clk\<close> holds the
  reading for the first alert and the reading for the second.
\<close>

definition dwell_alert :: "VehicleMetrics \<Rightarrow> real \<Rightarrow> real \<Rightarrow> alert" where
  "dwell_alert vehicle dwell_time now =
     \<lparr>a_type = ''PERMANENCIA_LONGA'', a_track_id = m_track_id vehicle,
      a_message = Dwell_message (m_track_id vehicle) dwell_time,
      a_timestamp = now, a_severity = ''warning''\<rparr>"

definition speed_alert :: "VehicleMetrics \<Rightarrow> real \<Rightarrow> real \<Rightarrow> alert" where
  "speed_alert vehicle avg_speed now =
     \<lparr>a_type = ''ALTA_VELOCIDADE'', a_track_id = m_track_id vehicle,
      a_message = Speed_message (m_track_id vehicle) avg_speed,
      a_timestamp = now, a_severity = ''danger''\<rparr>"

definition check_alerts ::
  "(real list \<Rightarrow> real) \<Rightarrow> AdvancedAnalytics \<Rightarrow> real \<times> real \<Rightarrow> VehicleMetrics \<Rightarrow> real
     \<Rightarrow> AdvancedAnalytics" where
  "check_alerts np_mean a clk vehicle dwell_time =
     (let a1 = (if dwell_time > 60
                then a\<lparr>alerts := alerts a @ [dwell_alert vehicle dwell_time (fst clk)]\<rparr>
                else a)
      in if speed_estimates vehicle \<noteq> [] then
           let avg_speed = np_mean (speed_estimates vehicle)
           in if avg_speed > 80
              then a1\<lparr>alerts := alerts a1 @ [speed_alert vehicle avg_speed (snd clk)]\<rparr>
              else a1
         else a1)"

definition vehicle_exited ::
  "(real list \<Rightarrow> real) \<Rightarrow> AdvancedAnalytics \<Rightarrow> int \<Rightarrow> real \<Rightarrow> string \<Rightarrow> real \<times> real
     \<Rightarrow> AdvancedAnalytics" where
  "vehicle_exited np_mean a tid ts dir clk =
     (case vehicles a tid of
        None \<Rightarrow> a
      | Some vehicle \<Rightarrow>
          let v1 = vehicle\<lparr>exit_time := ts, m_direction := dir, counted := True\<rparr>;
              v2 = (if positions v1 \<noteq> []
                    then v1\<lparr>exit_position := (case last (positions v1) of (x, y, t) \<Rightarrow> (x, y))\<rparr>
                    else v1);
              dwell_time = double_round (ts - entry_time v2);
              a1 = a\<lparr>vehicles := (vehicles a)(tid \<mapsto> v2),
                     dwell_times := dwell_times a @ [dwell_time],
                     vehicles_in_scene := max 0 (vehicles_in_scene a - 1)\<rparr>
          in check_alerts np_mean a1 clk v2 dwell_time)"



section \<open>color\_classifier.py\<close>

text \<open>
  A NumPy image array: its first two dimensions and the pixel at a row and a column.
  The pixel type is a parameter (three bytes in the source).
\<close>

record 'p image =
  shape0 :: nat
  shape1 :: nat
  pixel :: "nat \<Rightarrow> nat \<Rightarrow> 'p"

type_synonym hsv = "nat \<times> nat \<times> nat"

text \<open>\<^verbatim>\<open>COLOR_RANGES\<close>, in the dictionary's insertion order.\<close>

definition COLOR_RANGES :: "(string \<times> (nat \<times> nat \<times> nat \<times> nat \<times> nat \<times> nat) list) list" where
  "COLOR_RANGES =
     [(''vermelho'', [(0, 10, 70, 255, 50, 255), (170, 180, 70, 255, 50, 255)]),
      (''laranja'', [(10, 25, 70, 255, 50, 255)]),
      (''amarelo'', [(25, 35, 70, 255, 50, 255)]),
      (''verde'', [(35, 85, 70, 255, 50, 255)]),
      (''azul'', [(85, 130, 70, 255, 50, 255)]),
      (''roxo'', [(130, 160, 70, 255, 50, 255)]),
      (''rosa'', [(160, 170, 70, 255, 50, 255)]),
      (''branco'', [(0, 180, 0, 30, 200, 255)]),
      (''preto'', [(0, 180, 0, 255, 0, 50)]),
      (''cinza'', [(0, 180, 0, 30, 50, 200)]),
      (''prata'', [(0, 180, 0, 40, 150, 220)])]"

text \<open>
  A slice bound of NumPy on an axis of length \<open>n\<close>: a negative bound counts from the
  end, and every bound is clamped to the axis. \<^verbatim>\<open>a[r0:r1, c0:c1]\<close> is a view on the
  rows and columns between the bounds, empty when they cross.
\<close>

definition slice_index :: "nat \<Rightarrow> int \<Rightarrow> nat" where
  "slice_index n i = (if i < 0 then nat (max 0 (int n + i)) else min n (nat i))"

definition slice2 :: "'p image \<Rightarrow> int \<Rightarrow> int \<Rightarrow> int \<Rightarrow> int \<Rightarrow> 'p image" where
  "slice2 img r0 r1 c0 c1 =
     (let rs = slice_index (shape0 img) r0; re = slice_index (shape0 img) r1;
          cs = slice_index (shape1 img) c0; ce = slice_index (shape1 img) c1
      in \<lparr>shape0 = re - rs, shape1 = ce - cs, pixel = (\<lambda>i j. pixel img (rs + i) (cs + j))\<rparr>)"

text \<open>\<^verbatim>\<open>.size\<close> of an image of three channels.\<close>

definition image_size :: "'p image \<Rightarrow> nat" where
  "image_size img = shape0 img * shape1 img * 3"

text \<open>
  \<^verbatim>\<open>cv2.cvtColor(roi, cv2.COLOR_BGR2HSV)\<close>: OpenCV converts pixel by pixel, by a function
  \<open>cvt\<close> that is a parameter here, and fails on an empty image.
\<close>

definition cvtColor :: "('p \<Rightarrow> hsv) \<Rightarrow> 'p image \<Rightarrow> py_error + hsv image" where
  "cvtColor cvt img =
     (if shape0 img * shape1 img = 0 then Inl Cv2Error
      else Inr \<lparr>shape0 = shape0 img, shape1 = shape1 img,
                pixel = (\<lambda>i j. cvt (pixel img i j))\<rparr>)"

text \<open>\<^verbatim>\<open>cv2.inRange\<close> on one pixel: every channel between its bounds, both included.\<close>

definition in_range :: "hsv \<Rightarrow> nat \<times> nat \<times> nat \<times> nat \<times> nat \<times> nat \<Rightarrow> bool" where
  "in_range p range_values =
     (case p of (h, s, v) \<Rightarrow>
      case range_values of (h_min, h_max, s_min, s_max, v_min, v_max) \<Rightarrow>
        h_min \<le> h \<and> h \<le> h_max \<and> s_min \<le> s \<and> s \<le> s_max \<and> v_min \<le> v \<and> v \<le> v_max)"

text \<open>
  \<^verbatim>\<open>np.sum(mask > 0)\<close> for the mask of one colour: the pixels inside at least one of its
  ranges.
\<close>

definition count_mask :: "hsv image \<Rightarrow> (nat \<times> nat \<times> nat \<times> nat \<times> nat \<times> nat) list \<Rightarrow> nat" where
  "count_mask img ranges =
     length (filter (\<lambda>(i, j). list_ex (in_range (pixel img i j)) ranges)
               (List.product [0..<shape0 img] [0..<shape1 img]))"

text \<open>
  \<^verbatim>\<open>max(items, key=lambda x: x[1])\<close> on a non-empty sequence of (label, count): a left to
  right scan that replaces the best item only by a strictly greater one.
\<close>

fun max_item :: "string \<times> nat \<Rightarrow> (string \<times> nat) list \<Rightarrow> string \<times> nat" where
  "max_item best [] = best"
| "max_item best (x # xs) = max_item (if snd best < snd x then x else best) xs"

text \<open>
  \<^verbatim>\<open>[int(c) for c in bbox]\<close> on the box as it is passed: a list of any length whose
  entries are floats or \<^verbatim>\<open>None\<close>. The comprehension stops at the first entry that
  \<^verbatim>\<open>int\<close> refuses: \<^verbatim>\<open>TypeError\<close> for \<^verbatim>\<open>None\<close>, \<^verbatim>\<open>ValueError\<close> for NaN, \<^verbatim>\<open>OverflowError\<close>
  for an infinity.
\<close>

fun bbox_ints :: "pyfloat option list \<Rightarrow> py_error + int list" where
  "bbox_ints [] = Inr []"
| "bbox_ints (c # cs) =
     (case c of
        None \<Rightarrow> Inl TypeError
      | Some a \<Rightarrow>
          (case py_int a of
             Inl e \<Rightarrow> Inl e
           | Inr k \<Rightarrow> (case bbox_ints cs of Inl e \<Rightarrow> Inl e | Inr ks \<Rightarrow> Inr (k # ks))))"

text \<open>The clipping of the four integers to the frame.\<close>

definition clip_bbox :: "'p image \<Rightarrow> int \<times> int \<times> int \<times> int \<Rightarrow> int \<times> int \<times> int \<times> int" where
  "clip_bbox frame b =
     (case b of (x1, y1, x2, y2) \<Rightarrow>
        (max 0 x1, max 0 y1, min (int (shape1 frame)) x2, min (int (shape0 frame)) y2))"

text \<open>
  The region \<^verbatim>\<open>classify\<close> analyses: the vehicle's region without a margin of
  \<^verbatim>\<open>int(h * 0.2)\<close> rows and \<^verbatim>\<open>int(w * 0.15)\<close> columns on each side, or the whole region
  when that centre is empty.
\<close>

definition center_region :: "'p image \<Rightarrow> py_error + 'p image" where
  "center_region vehicle_roi =
     (let h = int (shape0 vehicle_roi); w = int (shape1 vehicle_roi)
      in case int_of_product h (py_literal 0.2) of
           Inl e \<Rightarrow> Inl e
         | Inr margin_h \<Rightarrow>
             (case int_of_product w (py_literal 0.15) of
                Inl e \<Rightarrow> Inl e
              | Inr margin_w \<Rightarrow>
                  (let center_roi =
                         slice2 vehicle_roi margin_h (h - margin_h) margin_w (w - margin_w)
                   in if image_size center_roi = 0 then Inr vehicle_roi else Inr center_roi)))"

text \<open>
  \<^verbatim>\<open>max_color[1] > total_pixels * 0.1\<close>: the product is a float product, the comparison
  with the integer count is exact.
\<close>

definition above_tenth :: "nat \<Rightarrow> nat \<Rightarrow> py_error + bool" where
  "above_tenth cnt total_pixels =
     (case float_of_int (int total_pixels) of
        Inl e \<Rightarrow> Inl e
      | Inr f \<Rightarrow> Inr (lt_real (fmul f (py_literal 0.1)) (real cnt)))"

text \<open>
  \<^verbatim>\<open>classify\<close>. The unpacking \<^verbatim>\<open>x1, y1, x2, y2 = [...]\<close> raises \<^verbatim>\<open>ValueError\<close> when the list
  does not have exactly four entries.
\<close>

definition classify ::
  "('p \<Rightarrow> hsv) \<Rightarrow> 'p image \<Rightarrow> pyfloat option list \<Rightarrow> py_error + string" where
  "classify cvt frame bbox =
     (case bbox_ints bbox of
        Inl e \<Rightarrow> Inl e
      | Inr ks \<Rightarrow>
          (case ks of
             [bx1, by1, bx2, by2] \<Rightarrow>
               (case clip_bbox frame (bx1, by1, bx2, by2) of (x1, y1, x2, y2) \<Rightarrow>
                  if x2 \<le> x1 \<or> y2 \<le> y1 then Inr ''indefinido''
                  else
                    let vehicle_roi = slice2 frame y1 y2 x1 x2
                    in if image_size vehicle_roi = 0 then Inr ''indefinido''
                       else
                         (case center_region vehicle_roi of
                            Inl e \<Rightarrow> Inl e
                          | Inr center_roi \<Rightarrow>
                              (case cvtColor cvt center_roi of
                                 Inl e \<Rightarrow> Inl e
                               | Inr hsv_img \<Rightarrow>
                                   let total_pixels = shape0 hsv_img * shape1 hsv_img;
                                       color_counts =
                                         map (\<lambda>(color_name, ranges).
                                                (color_name, count_mask hsv_img ranges))
                                           COLOR_RANGES
                                   in (case color_counts of
                                         [] \<Rightarrow> Inr ''indefinido''
                                       | first # rest \<Rightarrow>
                                           let max_color = max_item first rest
                                           in (case above_tenth (snd max_color) total_pixels of
                                                 Inl e \<Rightarrow> Inl e
                                               | Inr True \<Rightarrow> Inr (fst max_color)
                                               | Inr False \<Rightarrow> Inr ''indefinido'')))))
           | _ \<Rightarrow> Inl ValueError))"

text \<open>
  \<^verbatim>\<open>collections.Counter\<close> over a list: an insertion-ordered dictionary, a new key
  appended with count 1, a known key incremented in place. \<^verbatim>\<open>most_common(1)\<close> is
  \<^verbatim>\<open>max\<close> over the items by count, so that among equal counts the key first
  encountered wins.
\<close>

definition counter_add :: "(string \<times> nat) list \<Rightarrow> string \<Rightarrow> (string \<times> nat) list" where
  "counter_add d x =
     (if x \<in> set (map fst d)
      then map (\<lambda>(k, n). if k = x then (k, n + 1) else (k, n)) d
      else d @ [(x, 1)])"

definition Counter :: "string list \<Rightarrow> (string \<times> nat) list" where
  "Counter xs = foldl counter_add [] xs"

definition most_common_1 :: "(string \<times> nat) list \<Rightarrow> (string \<times> nat) list" where
  "most_common_1 items = (case items of [] \<Rightarrow> [] | first # rest \<Rightarrow> [max_item first rest])"

text \<open>
  The statements of \<^verbatim>\<open>classify_with_smoothing\<close> after the call of \<^verbatim>\<open>classify\<close>, on the
  dictionary \<^verbatim>\<open>color_history\<close>; \<^verbatim>\<open>most_common(1)[0]\<close> raises on an empty result.
\<close>

definition smooth ::
  "(int \<rightharpoonup> string list) \<Rightarrow> int \<Rightarrow> string \<Rightarrow> py_error + ((int \<rightharpoonup> string list) \<times> string)" where
  "smooth color_history tid current_color =
     (let h0 = (case color_history tid of None \<Rightarrow> [] | Some h \<Rightarrow> h);
          h1 = h0 @ [current_color];
          h2 = (if length h1 > 10 then last_n 10 h1 else h1);
          color_history' = color_history(tid \<mapsto> h2)
      in case most_common_1 (Counter h2) of
           [] \<Rightarrow> Inl IndexError
         | most_common # _ \<Rightarrow> Inr (color_history', fst most_common))"

definition classify_with_smoothing ::
  "('p \<Rightarrow> hsv) \<Rightarrow> (int \<rightharpoonup> string list) \<Rightarrow> int \<Rightarrow> 'p image \<Rightarrow> pyfloat option list
     \<Rightarrow> py_error + ((int \<rightharpoonup> string list) \<times> string)" where
  "classify_with_smoothing cvt color_history tid frame bbox =
     (case classify cvt frame bbox of
        Inl e \<Rightarrow> Inl e
      | Inr current_color \<Rightarrow> smooth color_history tid current_color)"

text \<open>
  Consecutive calls for one track whose single-frame classifications are the given
  labels: the final history and the label each call returned.
\<close>

fun smooth_all ::
  "(int \<rightharpoonup> string list) \<Rightarrow> int \<Rightarrow> string list
     \<Rightarrow> py_error + ((int \<rightharpoonup> string list) \<times> string list)" where
  "smooth_all h tid [] = Inr (h, [])"
| "smooth_all h tid (c # cs) =
     (case smooth h tid c of
        Inl e \<Rightarrow> Inl e
      | Inr (h', lab) \<Rightarrow>
          (case smooth_all h' tid cs of
             Inl e \<Rightarrow> Inl e
           | Inr (h'', labs) \<Rightarrow> Inr (h'', lab # labs)))"

text \<open>
  The most frequent label of a window with ties going to the label met first when the
  window is read in insertion order; and the tie-break in the specification's words,
  the window read from the most recently inserted label.
\<close>

definition first_most_frequent :: "string list \<Rightarrow> string option" where
  "first_most_frequent w = find (\<lambda>x. \<forall>y \<in> set w. count_list w y \<le> count_list w x) w"

definition spec_most_recent_mode :: "string list \<Rightarrow> string option" where
  "spec_most_recent_mode w = first_most_frequent (rev w)"

text \<open>The number of pixels of an analysed region that match a label of the taxonomy.\<close>

definition label_count :: "('p \<Rightarrow> hsv) \<Rightarrow> 'p image \<Rightarrow> string \<Rightarrow> nat" where
  "label_count cvt region l =
     (case map_of COLOR_RANGES l of
        None \<Rightarrow> 0
      | Some ranges \<Rightarrow>
          count_mask \<lparr>shape0 = shape0 region, shape1 = shape1 region,
                      pixel = (\<lambda>i j. cvt (pixel region i j))\<rparr> ranges)"


section \<open>Derived notions used in the statements\<close>

text \<open>
  The pairs emitted so far agree with the counter: they are the (track id, direction)
  projection of the records in order, no track id is repeated, the ids are exactly the
  counted set, and the two totals count the pairs by direction.
\<close>

definition counted_consistent :: "VehicleCounter \<Rightarrow> (int \<times> string) list \<Rightarrow> bool" where
  "counted_consistent c em \<longleftrightarrow>
     map (\<lambda>r. (r_track_id r, r_direction r)) (registros (stats c)) = em
     \<and> distinct (map fst em)
     \<and> set (map fst em) = counted_vehicles c
     \<and> total_entrada (stats c) = int (length (filter (\<lambda>p. snd p = ''entrada'') em))
     \<and> total_saida (stats c) = int (length (filter (\<lambda>p. snd p \<noteq> ''entrada'') em))"

text \<open>
  The vehicle as \<^verbatim>\<open>vehicle_exited\<close> leaves it, and the alerts one call appends for a
  vehicle that entered at \<open>entry_time v\<close> and leaves at \<open>ts\<close>.
\<close>

definition finalized :: "VehicleMetrics \<Rightarrow> real \<Rightarrow> string \<Rightarrow> VehicleMetrics" where
  "finalized v ts dir =
     (if positions v \<noteq> []
      then v\<lparr>exit_time := ts, m_direction := dir, counted := True,
             exit_position := (case last (positions v) of (x, y, t) \<Rightarrow> (x, y))\<rparr>
      else v\<lparr>exit_time := ts, m_direction := dir, counted := True\<rparr>)"

definition exit_alerts ::
  "(real list \<Rightarrow> real) \<Rightarrow> VehicleMetrics \<Rightarrow> real \<Rightarrow> real \<times> real \<Rightarrow> alert list" where
  "exit_alerts np_mean v ts clk =
     (if double_round (ts - entry_time v) > 60
      then [dwell_alert v (double_round (ts - entry_time v)) (fst clk)] else [])
     @ (if speed_estimates v \<noteq> [] \<and> np_mean (speed_estimates v) > 80
        then [speed_alert v (np_mean (speed_estimates v)) (snd clk)]
        else [])"

text \<open>
  Example states: an engine at the default scale of 20 pixels per metre that has seen
  track 3 once, at the origin at time 0; and the same with two speed samples above 80.
\<close>

definition vehicle_3 :: VehicleMetrics where
  "vehicle_3 = (VehicleMetrics_new 3 0 (0, 0))\<lparr>positions := [(0, 0, 0)]\<rparr>"

definition analytics_example :: AdvancedAnalytics where
  "analytics_example =
     (AdvancedAnalytics_init 30 20 0)
       \<lparr>vehicles := [3 \<mapsto> vehicle_3], total_vehicles := 1, vehicles_in_scene := 1\<rparr>"

definition analytics_fast :: AdvancedAnalytics where
  "analytics_fast =
     (AdvancedAnalytics_init 30 20 0)
       \<lparr>vehicles := [3 \<mapsto> vehicle_3\<lparr>speed_estimates := [90, 100]\<rparr>],
        total_vehicles := 1, vehicles_in_scene := 1\<rparr>"

text \<open>
  An engine that has seen track 3 once at time 0.1 (frame 3 at 30 frames per second);
  the double nearest to 0.1 is \<open>3602879701896397 / 2 ^ 55\<close>.
\<close>

definition vehicle_tenth :: VehicleMetrics where
  "vehicle_tenth =
     (VehicleMetrics_new 3 (3602879701896397 / 2 ^ 55) (0, 0))
       \<lparr>positions := [(0, 0, 3602879701896397 / 2 ^ 55)]\<rparr>"

definition analytics_tenth :: AdvancedAnalytics where
  "analytics_tenth =
     (AdvancedAnalytics_init 30 20 0)
       \<lparr>vehicles := [3 \<mapsto> vehicle_tenth], total_vehicles := 1, vehicles_in_scene := 1\<rparr>"

text \<open>
  The history list of a track in \<^verbatim>\<open>color_history\<close>, empty for an unknown track.
\<close>

definition history_of :: "(int \<rightharpoonup> string list) \<Rightarrow> int \<Rightarrow> string list" where
  "history_of h tid = (case h tid of None \<Rightarrow> [] | Some old \<Rightarrow> old)"

text \<open>
  The keys of a \<^verbatim>\<open>Counter\<close> over a window: its labels in the order of their first
  occurrence.
\<close>

definition first_occurrences :: "string list \<Rightarrow> string list" where
  "first_occurrences w = rev (remdups (rev w))"

text \<open>
  An item of a list of (label, count) that no item exceeds and that every earlier item
  is strictly below: what a left to right scan for the maximum returns.
\<close>

definition splits_at :: "(string \<times> nat) list \<Rightarrow> (string \<times> nat) \<Rightarrow> bool" where
  "splits_at items r \<longleftrightarrow>
     (\<exists>pre post. items = pre @ r # post \<and> (\<forall>y \<in> set pre. snd y < snd r))
     \<and> (\<forall>y \<in> set items. snd y \<le> snd r)"

text \<open>
  For \<^verbatim>\<open>classify\<close>: a well-formed box of four finite floats; whether the box of four
  integers, clipped, has no width or no height; the region analysed otherwise (the
  central part of the clipped box); and the count of every label of the taxonomy on a
  region.
\<close>

definition finite_box :: "real \<Rightarrow> real \<Rightarrow> real \<Rightarrow> real \<Rightarrow> pyfloat option list" where
  "finite_box a b c d = [Some (Finite a), Some (Finite b), Some (Finite c), Some (Finite d)]"

definition degenerate :: "'p image \<Rightarrow> int \<times> int \<times> int \<times> int \<Rightarrow> bool" where
  "degenerate frame b =
     (case clip_bbox frame b of (x1, y1, x2, y2) \<Rightarrow> x2 - x1 \<le> 0 \<or> y2 - y1 \<le> 0)"

definition analysed_region :: "'p image \<Rightarrow> int \<times> int \<times> int \<times> int \<Rightarrow> py_error + 'p image" where
  "analysed_region frame b =
     (case clip_bbox frame b of (x1, y1, x2, y2) \<Rightarrow> center_region (slice2 frame y1 y2 x1 x2))"

definition color_counts_of :: "('p \<Rightarrow> hsv) \<Rightarrow> 'p image \<Rightarrow> (string \<times> nat) list" where
  "color_counts_of cvt region = map (\<lambda>l. (l, label_count cvt region l)) (map fst COLOR_RANGES)"

text \<open>
  An example frame of 5 by 5 pixels, all of hue 100, saturation 200 and value 200 (inside
  the band of \<^verbatim>\<open>azul\<close> only); it is used with the identity as the colour conversion.
\<close>

definition blue_frame :: "hsv image" where
  "blue_frame = \<lparr>shape0 = 5, shape1 = 5, pixel = (\<lambda>i j. (100, 200, 200))\<rparr>"

section \<open>Rounding to double precision\<close>

subsection \<open>Rounding to an integer, and the exponent of a double\<close>

lemma round_half_even_int [simp]: "round_half_even (of_int n) = n"
  by (simp add: round_half_even_def)

lemma round_half_even_near:
  assumes "\<bar>y - of_int m\<bar> < 1/2"
  shows "round_half_even y = m"
proof -
  have "\<lfloor>y\<rfloor> = m \<or> \<lfloor>y\<rfloor> = m - 1" using assms by linarith
  then show ?thesis
  proof
    assume f: "\<lfloor>y\<rfloor> = m"
    then have "y - of_int \<lfloor>y\<rfloor> < 1/2" using assms by linarith
    then show ?thesis by (simp add: round_half_even_def f)
  next
    assume f: "\<lfloor>y\<rfloor> = m - 1"
    then have "1/2 < y - of_int \<lfloor>y\<rfloor>" using assms by (simp; linarith)
    then show ?thesis by (simp add: round_half_even_def f)
  qed
qed

lemma round_half_even_floor_cases:
  "round_half_even y = \<lfloor>y\<rfloor> \<or> round_half_even y = \<lfloor>y\<rfloor> + 1"
  by (simp add: round_half_even_def)

lemma round_half_even_mono:
  assumes "a \<le> b"
  shows "round_half_even a \<le> round_half_even b"
proof (cases "\<lfloor>a\<rfloor> < \<lfloor>b\<rfloor>")
  case True
  have "round_half_even a \<le> \<lfloor>a\<rfloor> + 1" using round_half_even_floor_cases[of a] by linarith
  moreover have "\<lfloor>b\<rfloor> \<le> round_half_even b" using round_half_even_floor_cases[of b] by linarith
  ultimately show ?thesis using True by linarith
next
  case False
  then have eq: "\<lfloor>a\<rfloor> = \<lfloor>b\<rfloor>" using assms floor_mono[of a b] by linarith
  have "a - of_int \<lfloor>b\<rfloor> \<le> b - of_int \<lfloor>b\<rfloor>" using assms by simp
  then show ?thesis unfolding round_half_even_def eq by (auto; linarith)
qed

lemma round_half_even_le_int: "y \<le> of_int n \<Longrightarrow> round_half_even y \<le> n"
  using round_half_even_mono[of y "of_int n"] by simp

lemma round_half_even_ge_int: "of_int n \<le> y \<Longrightarrow> n \<le> round_half_even y"
  using round_half_even_mono[of "of_int n" y] by simp

lemma ulp_exponent_ge: "- 1074 \<le> ulp_exponent x"
  by (simp add: ulp_exponent_def)

lemma floor_log2_eq:
  assumes "2 powi k \<le> a" and "a < 2 powi (k + 1)"
  shows "\<lfloor>log 2 a\<rfloor> = k"
proof -
  have pos: "0 < a" using assms(1) zero_less_power_int[of "2::real" k] by linarith
  have "2 powr real_of_int k = (2::real) powi k" by (rule powr_real_of_int') simp_all
  moreover have "2 powr real_of_int (k + 1) = (2::real) powi (k + 1)"
    by (rule powr_real_of_int') simp_all
  ultimately have "2 powr real_of_int k \<le> a \<and> a < 2 powr real_of_int (k + 1)"
    using assms by simp
  then show ?thesis using floor_log_eq_powr_iff[of a 2 k] pos by simp
qed

lemma floor_log2_bounds:
  assumes "0 < a"
  shows "2 powi \<lfloor>log 2 a\<rfloor> \<le> a" and "a < 2 powi (\<lfloor>log 2 a\<rfloor> + 1)"
proof -
  let ?k = "\<lfloor>log 2 a\<rfloor>"
  have "2 powr real_of_int ?k \<le> a \<and> a < 2 powr real_of_int (?k + 1)"
    using floor_log_eq_powr_iff[of a 2 ?k] assms by simp
  moreover have "2 powr real_of_int ?k = (2::real) powi ?k" by (rule powr_real_of_int') simp_all
  moreover have "2 powr real_of_int (?k + 1) = (2::real) powi (?k + 1)"
    by (rule powr_real_of_int') simp_all
  ultimately show "2 powi ?k \<le> a" and "a < 2 powi (?k + 1)" by simp_all
qed

lemma ulp_exponent_eq:
  assumes "2 powi (e + 52) \<le> \<bar>x\<bar>" and "\<bar>x\<bar> < 2 powi (e + 53)" and "- 1074 \<le> e"
  shows "ulp_exponent x = e"
proof -
  have "\<lfloor>log 2 \<bar>x\<bar>\<rfloor> = e + 52"
    using floor_log2_eq[of "e + 52" "\<bar>x\<bar>"] assms by (simp add: add.commute add.left_commute)
  then show ?thesis using assms(3) by (simp add: ulp_exponent_def)
qed




lemma double_round_eqI:
  assumes "2 powi (e + 52) \<le> \<bar>x\<bar>" and "\<bar>x\<bar> < 2 powi (e + 53)" and "- 1074 \<le> e"
    and "\<bar>x / 2 powi e - of_int m\<bar> < 1/2"
  shows "double_round x = of_int m * 2 powi e"
proof -
  have "0 < \<bar>x\<bar>" using assms(1) zero_less_power_int[of "2::real" "e + 52"] by linarith
  then have nz: "x \<noteq> 0" by auto
  have e: "ulp_exponent x = e" by (rule ulp_exponent_eq[OF assms(1,2,3)])
  show ?thesis using nz by (simp add: double_round_def e round_half_even_near[OF assms(4)])
qed

lemma double_round_scaled:
  assumes "2 ^ 52 \<le> \<bar>x\<bar> * 2 ^ k" and "\<bar>x\<bar> * 2 ^ k < 2 ^ 53" and "k \<le> 1074"
    and "\<bar>x * 2 ^ k - of_int m\<bar> < 1/2"
  shows "double_round x = of_int m / 2 ^ k"
proof -
  have p: "(2::real) powi (- int k) = 1 / 2 ^ k"
    by (simp add: power_int_minus inverse_eq_divide)
  have a: "(2::real) powi (- int k + 52) = 2 ^ 52 / 2 ^ k"
    using power_int_add[of "2::real" "- int k" 52] p by simp
  have b: "(2::real) powi (- int k + 53) = 2 ^ 53 / 2 ^ k"
    using power_int_add[of "2::real" "- int k" 53] p by simp
  have 1: "2 powi (- int k + 52) \<le> \<bar>x\<bar>" unfolding a using assms(1) by (simp add: field_simps)
  have 2: "\<bar>x\<bar> < 2 powi (- int k + 53)" unfolding b using assms(2) by (simp add: field_simps)
  have 3: "- 1074 \<le> - int k" using assms(3) by simp
  have 4: "\<bar>x / 2 powi (- int k) - of_int m\<bar> < 1/2" unfolding p using assms(4) by simp
  from double_round_eqI[OF 1 2 3 4] show ?thesis unfolding p by simp
qed

lemma double_round_grid_fix:
  assumes "x / 2 powi ulp_exponent x = of_int j"
  shows "double_round x = x"
proof (cases "x = 0")
  case True
  then show ?thesis by (simp add: double_round_def)
next
  case False
  have "of_int j * 2 powi ulp_exponent x = x"
    using assms by (simp add: field_simps)
  then show ?thesis using False by (simp add: double_round_def assms)
qed

lemma double_round_le_grid:
  assumes "y \<le> of_int j * 2 powi ulp_exponent y"
  shows "double_round y \<le> of_int j * 2 powi ulp_exponent y"
proof (cases "y = 0")
  case True
  then show ?thesis using assms by (simp add: double_round_def)
next
  case False
  have pos: "0 < (2::real) powi ulp_exponent y" by simp
  have "y / 2 powi ulp_exponent y \<le> of_int j" using assms pos by (simp add: field_simps)
  then have "round_half_even (y / 2 powi ulp_exponent y) \<le> j" by (rule round_half_even_le_int)
  then have "real_of_int (round_half_even (y / 2 powi ulp_exponent y)) \<le> of_int j" by simp
  then show ?thesis using False pos by (simp add: double_round_def)
qed

lemma double_round_ge_grid:
  assumes "of_int j * 2 powi ulp_exponent y \<le> y"
  shows "of_int j * 2 powi ulp_exponent y \<le> double_round y"
proof (cases "y = 0")
  case True
  then show ?thesis using assms by (simp add: double_round_def)
next
  case False
  have pos: "0 < (2::real) powi ulp_exponent y" by simp
  have "of_int j \<le> y / 2 powi ulp_exponent y" using assms pos by (simp add: field_simps)
  then have "j \<le> round_half_even (y / 2 powi ulp_exponent y)" by (rule round_half_even_ge_int)
  then have "of_int j \<le> real_of_int (round_half_even (y / 2 powi ulp_exponent y))" by simp
  then show ?thesis using False pos by (simp add: double_round_def)
qed

lemma floor_log2_less:
  assumes "0 < a" and "a < 2 powi k"
  shows "\<lfloor>log 2 a\<rfloor> < k"
proof (rule ccontr)
  assume "\<not> \<lfloor>log 2 a\<rfloor> < k"
  then have "k \<le> \<lfloor>log 2 a\<rfloor>" by simp
  then have "(2::real) powi k \<le> 2 powi \<lfloor>log 2 a\<rfloor>" by (intro power_int_increasing) simp_all
  with floor_log2_bounds(1)[OF assms(1)] assms(2) show False by linarith
qed

lemma floor_log2_ge:
  assumes "2 powi k \<le> a"
  shows "k \<le> \<lfloor>log 2 a\<rfloor>"
proof (rule ccontr)
  assume "\<not> k \<le> \<lfloor>log 2 a\<rfloor>"
  then have "\<lfloor>log 2 a\<rfloor> + 1 \<le> k" by simp
  then have "(2::real) powi (\<lfloor>log 2 a\<rfloor> + 1) \<le> 2 powi k" by (intro power_int_increasing) simp_all
  moreover have "0 < a" using assms zero_less_power_int[of "2::real" k] by linarith
  ultimately show False using floor_log2_bounds(2)[of a] assms by linarith
qed

lemma ulp_exponent_le:
  assumes "x \<noteq> 0" and "\<bar>x\<bar> < 2 powi k" and "- 1021 \<le> k"
  shows "ulp_exponent x \<le> k - 53"
proof -
  have "\<lfloor>log 2 \<bar>x\<bar>\<rfloor> < k" by (rule floor_log2_less) (use assms in auto)
  then show ?thesis using assms(3) by (simp add: ulp_exponent_def)
qed

lemma grid_multiple:
  assumes "e \<le> k"
  shows "\<exists>j. (2::real) powi k = of_int j * 2 powi e"
proof -
  have "(2::real) powi k = 2 powi (k - e) * 2 powi e"
    using power_int_add[of "2::real" "k - e" e] by simp
  also have "(2::real) powi (k - e) = of_int (2 ^ nat (k - e))"
    using assms by (simp add: power_int_nonneg_exp)
  finally show ?thesis by blast
qed

lemma int_grid_multiple:
  assumes "e \<le> 0"
  shows "\<exists>j. real_of_int c = of_int j * 2 powi e"
proof -
  from grid_multiple[OF assms] obtain j where "(2::real) powi 0 = of_int j * 2 powi e" by blast
  then have "real_of_int c = of_int (c * j) * 2 powi e" by simp
  then show ?thesis by blast
qed

lemma double_round_le_int:
  assumes "y \<le> of_int c" and "\<bar>y\<bar> < 2 ^ 53"
  shows "double_round y \<le> of_int c"
proof (cases "y = 0")
  case True
  then show ?thesis using assms by (simp add: double_round_def)
next
  case False
  have "ulp_exponent y \<le> 53 - 53" by (rule ulp_exponent_le) (use False assms in auto)
  then have "ulp_exponent y \<le> 0" by simp
  from int_grid_multiple[OF this, of c] obtain j where
    j: "real_of_int c = of_int j * 2 powi ulp_exponent y" by blast
  show ?thesis using double_round_le_grid[of y j] assms(1) unfolding j[symmetric] by simp
qed

lemma double_round_ge_int:
  assumes "of_int c \<le> y" and "\<bar>y\<bar> < 2 ^ 53"
  shows "of_int c \<le> double_round y"
proof (cases "y = 0")
  case True
  then show ?thesis using assms by (simp add: double_round_def)
next
  case False
  have "ulp_exponent y \<le> 53 - 53" by (rule ulp_exponent_le) (use False assms in auto)
  then have "ulp_exponent y \<le> 0" by simp
  from int_grid_multiple[OF this, of c] obtain j where
    j: "real_of_int c = of_int j * 2 powi ulp_exponent y" by blast
  show ?thesis using double_round_ge_grid[of j y] assms(1) unfolding j[symmetric] by simp
qed

lemma double_round_int:
  assumes "\<bar>n\<bar> < 2 ^ 53"
  shows "double_round (of_int n) = of_int n"
proof -
  have b: "\<bar>real_of_int n\<bar> < 2 ^ 53"
    using assms by (metis of_int_abs of_int_less_numeral_power_cancel_iff)
  have "double_round (of_int n) \<le> of_int n" using b by (intro double_round_le_int) simp_all
  moreover have "of_int n \<le> double_round (of_int n)" using b by (intro double_round_ge_int) simp_all
  ultimately show ?thesis by simp
qed

lemma double_round_abs_le_pow2:
  assumes "\<bar>x\<bar> \<le> 2 powi k" and "- 1074 \<le> k"
  shows "\<bar>double_round x\<bar> \<le> 2 powi k"
proof (cases "x = 0")
  case True
  then show ?thesis by (simp add: double_round_def)
next
  case False
  have "\<bar>x\<bar> < 2 powi (k + 1)"
    using assms(1) power_int_strict_increasing[of k "k + 1" "2::real"] by simp
  then have "\<lfloor>log 2 \<bar>x\<bar>\<rfloor> < k + 1" using False by (intro floor_log2_less) simp_all
  then have e: "ulp_exponent x \<le> k" using assms(2) by (simp add: ulp_exponent_def)
  from grid_multiple[OF e] obtain j where j: "(2::real) powi k = of_int j * 2 powi ulp_exponent x"
    by blast
  have "x \<le> of_int j * 2 powi ulp_exponent x" using assms(1) unfolding j by linarith
  then have up: "double_round x \<le> 2 powi k" unfolding j by (rule double_round_le_grid)
  have "of_int (- j) * 2 powi ulp_exponent x \<le> x" using assms(1) unfolding j by simp
  then have "of_int (- j) * 2 powi ulp_exponent x \<le> double_round x" by (rule double_round_ge_grid)
  then have "- (2 powi k) \<le> double_round x" unfolding j by simp
  with up show ?thesis by linarith
qed




lemma py_trunc_of_int [simp]: "py_trunc (of_int k) = k"
  by (simp add: py_trunc_def)

lemma py_trunc_abs_le: "\<bar>real_of_int (py_trunc x)\<bar> \<le> \<bar>x\<bar>"
  unfolding py_trunc_def by (auto; linarith)

lemma scaled_less:
  assumes "x \<noteq> 0"
  shows "\<bar>x\<bar> < 2 powi (ulp_exponent x + 53)"
proof -
  have "\<lfloor>log 2 \<bar>x\<bar>\<rfloor> + 1 \<le> ulp_exponent x + 53" by (simp add: ulp_exponent_def)
  then have "(2::real) powi (\<lfloor>log 2 \<bar>x\<bar>\<rfloor> + 1) \<le> 2 powi (ulp_exponent x + 53)"
    by (intro power_int_increasing) simp_all
  moreover have "\<bar>x\<bar> < 2 powi (\<lfloor>log 2 \<bar>x\<bar>\<rfloor> + 1)"
    by (rule floor_log2_bounds(2)) (use assms in simp)
  ultimately show ?thesis by linarith
qed

lemma mantissa_bound:
  assumes "x \<noteq> 0"
  shows "\<bar>round_half_even (x / 2 powi ulp_exponent x)\<bar> \<le> 2 ^ 53"
proof -
  let ?e = "ulp_exponent x"
  have pos: "0 < (2::real) powi ?e" by simp
  have "(2::real) powi (?e + 53) = 2 powi ?e * 2 ^ 53"
    using power_int_add[of "2::real" ?e 53] by simp
  then have "\<bar>x\<bar> < 2 powi ?e * 2 ^ 53" using scaled_less[OF assms] by simp
  then have "\<bar>x\<bar> / 2 powi ?e < 2 ^ 53" using pos by (simp add: field_simps)
  then have "\<bar>x / 2 powi ?e\<bar> < 2 ^ 53" using pos by simp
  define y where "y = x / 2 powi ?e"
  have b: "\<bar>y\<bar> < 2 ^ 53" unfolding y_def by fact
  have "y \<le> real_of_int (2 ^ 53)" using b by simp
  then have u: "round_half_even y \<le> 2 ^ 53" by (rule round_half_even_le_int)
  have "real_of_int (- (2 ^ 53)) \<le> y" using b by simp
  then have "- (2 ^ 53) \<le> round_half_even y" by (rule round_half_even_ge_int)
  with u show ?thesis unfolding y_def by linarith
qed

lemma double_round_idem: "double_round (double_round x) = double_round x"
proof (cases "x = 0")
  case True
  then show ?thesis by (simp add: double_round_def)
next
  case False
  define e where "e = ulp_exponent x"
  define m where "m = round_half_even (x / 2 powi e)"
  define p where "p = double_round x"
  have p: "p = of_int m * 2 powi e" using False by (simp add: p_def double_round_def m_def e_def)
  have mb: "\<bar>m\<bar> \<le> 2 ^ 53" unfolding m_def e_def by (rule mantissa_bound[OF False])
  have e_ge: "- 1074 \<le> e" unfolding e_def by (rule ulp_exponent_ge)
  show ?thesis
  proof (cases "m = 0")
    case True
    then have "p = 0" using p by simp
    then show ?thesis unfolding p_def[symmetric] by (simp add: double_round_def)
  next
    case mnz: False
    then have pnz: "p \<noteq> 0" using p by simp
    define e' where "e' = ulp_exponent p"
    have "\<exists>j. p / 2 powi e' = of_int j"
    proof (cases "e' \<le> e")
      case True
      have "(2::real) powi e = 2 powi (e - e') * 2 powi e'"
        using power_int_add[of "2::real" "e - e'" e'] by simp
      moreover have "(2::real) powi (e - e') = of_int (2 ^ nat (e - e'))"
        using True by (simp add: power_int_nonneg_exp)
      ultimately have "p / 2 powi e' = of_int (m * 2 ^ nat (e - e'))"
        unfolding p by simp
      then show ?thesis by blast
    next
      case False
      then have gt: "e < e'" by simp
      then have "e' \<noteq> - 1074" using e_ge by simp
      then have e'l: "e' = \<lfloor>log 2 \<bar>p\<bar>\<rfloor> - 52"
        unfolding e'_def ulp_exponent_def by (simp add: max_def split: if_splits)
      then have "e + 53 \<le> \<lfloor>log 2 \<bar>p\<bar>\<rfloor>" using gt by simp
      then have "(2::real) powi (e + 53) \<le> 2 powi \<lfloor>log 2 \<bar>p\<bar>\<rfloor>"
        by (intro power_int_increasing) simp_all
      moreover have "2 powi \<lfloor>log 2 \<bar>p\<bar>\<rfloor> \<le> \<bar>p\<bar>"
        by (rule floor_log2_bounds(1)) (use pnz in simp)
      ultimately have lo: "2 powi (e + 53) \<le> \<bar>p\<bar>" by linarith
      have "\<bar>p\<bar> = \<bar>real_of_int m\<bar> * 2 powi e" unfolding p by (simp add: abs_mult)
      also have "\<dots> \<le> 2 ^ 53 * 2 powi e"
      proof -
        have "\<bar>real_of_int m\<bar> \<le> 2 ^ 53" using mb by (metis of_int_abs of_int_le_numeral_power_cancel_iff)
        then show ?thesis by (intro mult_right_mono) simp_all
      qed
      also have "\<dots> = 2 powi (e + 53)" using power_int_add[of "2::real" e 53] by simp
      finally have hi: "\<bar>p\<bar> \<le> 2 powi (e + 53)" .
      from lo hi have pe: "\<bar>p\<bar> = 2 powi (e + 53)" by linarith
      have "\<bar>p\<bar> < 2 powi (e + 53 + 1)"
        unfolding pe by (intro power_int_strict_increasing) simp_all
      then have "\<lfloor>log 2 \<bar>p\<bar>\<rfloor> = e + 53" using floor_log2_eq[of "e + 53" "\<bar>p\<bar>"] pe by simp
      then have e': "e' = e + 1" using e'l by simp
      have "(2::real) powi (e + 53) = 2 ^ 52 * 2 powi (e + 1)"
        using power_int_add[of "2::real" "e + 1" 52] by (simp add: add.commute add.left_commute)
      then have "\<bar>p\<bar> / 2 powi e' = 2 ^ 52" unfolding pe e' by simp
      then have "\<bar>p / 2 powi e'\<bar> = 2 ^ 52" by simp
      then have "p / 2 powi e' = of_int (2 ^ 52) \<or> p / 2 powi e' = of_int (- (2 ^ 52))"
        by (simp; linarith)
      then show ?thesis by blast
    qed
    then obtain j where "p / 2 powi ulp_exponent p = of_int j" unfolding e'_def by blast
    then have "double_round p = p" by (rule double_round_grid_fix)
    then show ?thesis unfolding p_def .
  qed
qed

lemma trunc_of_double_convertible:
  assumes "\<bar>double_round q\<bar> < 2 ^ 1024"
  shows "\<bar>double_round (of_int (py_trunc (double_round q)))\<bar> < 2 ^ 1024"
proof (cases "\<bar>double_round q\<bar> < 2 ^ 53")
  case True
  have "\<bar>real_of_int (py_trunc (double_round q))\<bar> < 2 ^ 53"
    using py_trunc_abs_le[of "double_round q"] True by linarith
  then have "\<bar>py_trunc (double_round q)\<bar> < 2 ^ 53"
    by (metis of_int_abs of_int_less_numeral_power_cancel_iff)
  then have "double_round (of_int (py_trunc (double_round q))) = of_int (py_trunc (double_round q))"
    by (rule double_round_int)
  then show ?thesis using py_trunc_abs_le[of "double_round q"] assms by simp
next
  case False
  then have big: "2 ^ 53 \<le> \<bar>double_round q\<bar>" by simp
  then have qnz: "q \<noteq> 0" by (auto simp: double_round_def)
  define e where "e = ulp_exponent q"
  define m where "m = round_half_even (q / 2 powi e)"
  have p: "double_round q = of_int m * 2 powi e"
    using qnz by (simp add: double_round_def m_def e_def)
  have mb: "\<bar>real_of_int m\<bar> \<le> 2 ^ 53"
    using mantissa_bound[OF qnz] unfolding m_def e_def
    by (metis of_int_abs of_int_le_numeral_power_cancel_iff)
  have "0 \<le> e"
  proof (rule ccontr)
    assume "\<not> 0 \<le> e"
    then have "e < 0" by simp
    then have "(2::real) powi e < 2 powi 0" by (intro power_int_strict_increasing) simp_all
    then have lt1: "(2::real) powi e < 1" by simp
    have "\<bar>double_round q\<bar> = \<bar>real_of_int m\<bar> * 2 powi e" unfolding p by (simp add: abs_mult)
    also have "\<dots> \<le> 2 ^ 53 * 2 powi e" using mb by (intro mult_right_mono) simp_all
    also have "\<dots> < 2 ^ 53 * 1" using lt1 by (intro mult_strict_left_mono) simp_all
    finally show False using big by simp
  qed
  then have "(2::real) powi e = of_int (2 ^ nat e)" by (simp add: power_int_nonneg_exp)
  then have "double_round q = of_int (m * 2 ^ nat e)" unfolding p by simp
  then have "of_int (py_trunc (double_round q)) = double_round q"
    by (metis py_trunc_of_int)
  then show ?thesis using assms by (simp add: double_round_idem)
qed

subsection \<open>Representable numbers and conversions\<close>

lemma trunc_of_double_fixed:
  "double_round (of_int (py_trunc (double_round q))) = of_int (py_trunc (double_round q))"
proof (cases "\<bar>double_round q\<bar> < 2 ^ 53")
  case True
  have "\<bar>real_of_int (py_trunc (double_round q))\<bar> < 2 ^ 53"
    using py_trunc_abs_le[of "double_round q"] True by linarith
  then have "\<bar>py_trunc (double_round q)\<bar> < 2 ^ 53"
    by (metis of_int_abs of_int_less_numeral_power_cancel_iff)
  then show ?thesis by (rule double_round_int)
next
  case False
  then have big: "2 ^ 53 \<le> \<bar>double_round q\<bar>" by simp
  then have qnz: "q \<noteq> 0" by (auto simp: double_round_def)
  define e where "e = ulp_exponent q"
  define m where "m = round_half_even (q / 2 powi e)"
  have p: "double_round q = of_int m * 2 powi e"
    using qnz by (simp add: double_round_def m_def e_def)
  have mb: "\<bar>real_of_int m\<bar> \<le> 2 ^ 53"
    using mantissa_bound[OF qnz] unfolding m_def e_def
    by (metis of_int_abs of_int_le_numeral_power_cancel_iff)
  have "0 \<le> e"
  proof (rule ccontr)
    assume "\<not> 0 \<le> e"
    then have "e < 0" by simp
    then have "(2::real) powi e < 2 powi 0" by (intro power_int_strict_increasing) simp_all
    then have lt1: "(2::real) powi e < 1" by simp
    have "\<bar>double_round q\<bar> = \<bar>real_of_int m\<bar> * 2 powi e" unfolding p by (simp add: abs_mult)
    also have "\<dots> \<le> 2 ^ 53 * 2 powi e" using mb by (intro mult_right_mono) simp_all
    also have "\<dots> < 2 ^ 53 * 1" using lt1 by (intro mult_strict_left_mono) simp_all
    finally show False using big by simp
  qed
  then have "(2::real) powi e = of_int (2 ^ nat e)" by (simp add: power_int_nonneg_exp)
  then have "double_round q = of_int (m * 2 ^ nat e)" unfolding p by simp
  then have "of_int (py_trunc (double_round q)) = double_round q"
    by (metis py_trunc_of_int)
  then show ?thesis by (simp add: double_round_idem)
qed

lemma dyadic_on_grid:
  assumes "x \<noteq> 0" and "\<bar>x\<bar> * 2 ^ k < 2 ^ 53" and "k \<le> 1074"
  shows "\<exists>j. real_of_int n / 2 ^ k = of_int j * 2 powi ulp_exponent x"
proof -
  let ?e = "ulp_exponent x"
  have pk: "(2::real) powi (53 - int k) = 2 ^ 53 / 2 ^ k"
    using power_int_diff[of "2::real" 53 "int k"] by simp
  have "\<bar>x\<bar> < 2 ^ 53 / 2 ^ k" using assms(2) by (simp add: field_simps)
  then have "\<bar>x\<bar> < 2 powi (53 - int k)" unfolding pk .
  then have "?e \<le> (53 - int k) - 53"
    by (intro ulp_exponent_le[OF assms(1)]) (use assms(3) in simp_all)
  then have le: "?e \<le> - int k" by simp
  have "(2::real) powi (- int k) = 2 powi (- int k - ?e) * 2 powi ?e"
    using power_int_add[of "2::real" "- int k - ?e" ?e] by simp
  moreover have "(2::real) powi (- int k - ?e) = of_int (2 ^ nat (- int k - ?e))"
    using le by (simp add: power_int_nonneg_exp)
  moreover have "real_of_int n / 2 ^ k = of_int n * 2 powi (- int k)"
    by (simp add: power_int_minus field_simps)
  ultimately have "real_of_int n / 2 ^ k = of_int (n * 2 ^ nat (- int k - ?e)) * 2 powi ?e"
    by simp
  then show ?thesis by blast
qed

lemma double_round_le_dyadic:
  assumes "y \<le> real_of_int n / 2 ^ k" and "\<bar>y\<bar> * 2 ^ k < 2 ^ 53" and "k \<le> 1074"
  shows "double_round y \<le> real_of_int n / 2 ^ k"
proof (cases "y = 0")
  case True
  then show ?thesis using assms(1) by (simp add: double_round_def)
next
  case False
  from dyadic_on_grid[OF False assms(2,3), of n]
  obtain j where j: "real_of_int n / 2 ^ k = of_int j * 2 powi ulp_exponent y" by blast
  show ?thesis using double_round_le_grid[of y j] assms(1) unfolding j by simp
qed

lemma double_round_ge_dyadic:
  assumes "real_of_int n / 2 ^ k \<le> y" and "\<bar>y\<bar> * 2 ^ k < 2 ^ 53" and "k \<le> 1074"
  shows "real_of_int n / 2 ^ k \<le> double_round y"
proof (cases "y = 0")
  case True
  then show ?thesis using assms(1) by (simp add: double_round_def)
next
  case False
  from dyadic_on_grid[OF False assms(2,3), of n]
  obtain j where j: "real_of_int n / 2 ^ k = of_int j * 2 powi ulp_exponent y" by blast
  show ?thesis using double_round_ge_grid[of j y] assms(1) unfolding j by simp
qed

lemma double_round_dyadic:
  assumes "\<bar>n\<bar> < 2 ^ 53" and "k \<le> 1074"
  shows "double_round (real_of_int n / 2 ^ k) = real_of_int n / 2 ^ k"
proof -
  have b: "\<bar>real_of_int n\<bar> < 2 ^ 53"
    using assms(1) by (metis of_int_abs of_int_less_numeral_power_cancel_iff)
  have s: "\<bar>real_of_int n / 2 ^ k\<bar> * 2 ^ k < 2 ^ 53" using b by simp
  have "double_round (real_of_int n / 2 ^ k) \<le> real_of_int n / 2 ^ k"
    by (rule double_round_le_dyadic[OF _ s assms(2)]) simp
  moreover have "real_of_int n / 2 ^ k \<le> double_round (real_of_int n / 2 ^ k)"
    by (rule double_round_ge_dyadic[OF _ s assms(2)]) simp
  ultimately show ?thesis by simp
qed

lemma double_round_numeral:
  "(numeral w :: int) < 2 ^ 53 \<Longrightarrow> double_round (numeral w) = numeral w"
  using double_round_int[of "numeral w"] by simp

lemma double_round_neg_numeral:
  "(numeral w :: int) < 2 ^ 53 \<Longrightarrow> double_round (- numeral w) = - numeral w"
  using double_round_int[of "- numeral w"] by simp

lemma double_round_0 [simp]: "double_round 0 = 0"
  by (simp add: double_round_def)

lemma double_round_1 [simp]: "double_round 1 = 1"
  using double_round_int[of 1] by simp

lemma to_double_finite:
  "\<bar>double_round x\<bar> < 2 ^ 1024 \<Longrightarrow> to_double x = Finite (double_round x)"
  by (auto simp: to_double_def Let_def)

lemma to_double_Finite_iff:
  "to_double x = Finite p \<longleftrightarrow> p = double_round x \<and> \<bar>double_round x\<bar> < 2 ^ 1024"
  by (auto simp: to_double_def Let_def)

lemma to_double_cases:
  "to_double x = Finite (double_round x) \<or> to_double x = PosInf \<or> to_double x = NegInf"
  by (auto simp: to_double_def Let_def)

lemma float_of_int_small:
  assumes "\<bar>k\<bar> < 2 ^ 53"
  shows "float_of_int k = Inr (Finite (real_of_int k))"
proof -
  have b: "\<bar>real_of_int k\<bar> < 2 ^ 53"
    using assms by (metis of_int_abs of_int_less_numeral_power_cancel_iff)
  have "(2::real) ^ 53 \<le> 2 ^ 1024" by (rule power_increasing) simp_all
  with b have "\<bar>real_of_int k\<bar> < 2 ^ 1024" by linarith
  then have "to_double (of_int k) = Finite (of_int k)"
    using double_round_int[OF assms] by (simp add: to_double_finite)
  then show ?thesis by (simp add: float_of_int_def)
qed

lemma float_of_int_trunc:
  assumes "\<bar>double_round q\<bar> < 2 ^ 1024"
  shows "float_of_int (py_trunc (double_round q))
           = Inr (Finite (real_of_int (py_trunc (double_round q))))"
proof -
  have "\<bar>real_of_int (py_trunc (double_round q))\<bar> < 2 ^ 1024"
    using py_trunc_abs_le[of "double_round q"] assms by linarith
  then have "to_double (of_int (py_trunc (double_round q)))
      = Finite (of_int (py_trunc (double_round q)))"
    by (simp add: to_double_finite trunc_of_double_fixed)
  then show ?thesis by (simp add: float_of_int_def)
qed

lemma float_of_int_cases:
  "float_of_int k = Inl OverflowError
     \<or> (float_of_int k = Inr (Finite (double_round (of_int k)))
          \<and> \<bar>double_round (of_int k)\<bar> < 2 ^ 1024)"
  by (auto simp: float_of_int_def to_double_def Let_def)

lemma fmul_Finite:
  assumes "fmul a b = Finite p"
  shows "\<exists>x y. a = Finite x \<and> b = Finite y \<and> p = double_round (x * y)
           \<and> \<bar>double_round (x * y)\<bar> < 2 ^ 1024"
  using assms
  by (cases a; cases b)
     (auto simp: fmul_def inf_of_sign_def to_double_Finite_iff split: if_splits)

lemma py_int_Inr:
  "py_int a = Inr k \<longleftrightarrow> (\<exists>x. a = Finite x \<and> k = py_trunc x)"
  by (cases a) (auto simp: py_int_def)

lemma int_of_product_Inr:
  assumes "int_of_product k a = Inr r"
  shows "\<exists>x q. a = Finite x \<and> r = py_trunc (double_round q)
           \<and> \<bar>double_round q\<bar> < 2 ^ 1024
           \<and> q = double_round (of_int k) * x"
proof -
  from assms obtain f where f: "float_of_int k = Inr f" and p: "py_int (fmul f a) = Inr r"
    by (auto simp: int_of_product_def split: sum.splits)
  from f float_of_int_cases[of k] have f': "f = Finite (double_round (of_int k))" by auto
  from p obtain z where z: "fmul f a = Finite z" and r: "r = py_trunc z"
    unfolding py_int_Inr by blast
  from fmul_Finite[OF z] f' obtain x where "a = Finite x"
    and "z = double_round (double_round (of_int k) * x)"
    and "\<bar>double_round (double_round (of_int k) * x)\<bar> < 2 ^ 1024" by auto
  then show ?thesis using r by blast
qed

lemma int_of_product_small:
  assumes "\<bar>k\<bar> < 2 ^ 53" and "\<bar>double_round (of_int k * x)\<bar> < 2 ^ 1024"
  shows "int_of_product k (Finite x) = Inr (py_trunc (double_round (of_int k * x)))"
  using assms
  by (simp add: int_of_product_def float_of_int_small fmul_def to_double_finite py_int_def)

section \<open>The crossing counter\<close>

subsection \<open>Direction inference never divides by zero\<close>

lemma py_mean_nonempty:
  "xs \<noteq> [] \<Longrightarrow> py_mean fsum xs = Inr (fquot (fsum xs) (Finite (real (length xs))))"
  by (simp add: py_mean_def fdiv_def)

lemma direction_of_eq:
  "direction_of fsum ps =
     Inr (if length ps < 5 then None
          else if gt_real (computed_movement fsum ps) 20 then Some ''entrada''
          else if lt_real (computed_movement fsum ps) (- 20) then Some ''saida''
          else None)"
proof (cases "length ps < 5")
  case True
  then show ?thesis by (simp add: direction_of_def)
next
  case False
  then have t: "take (length ps div 2) ps \<noteq> []" and d: "drop (length ps div 2) ps \<noteq> []"
    by auto
  show ?thesis
    using False
    by (simp add: direction_of_def Let_def py_mean_nonempty[OF t] py_mean_nonempty[OF d]
        computed_movement_def)
qed

lemma get_direction_cases:
  "get_direction fsum c tid = Inr None
     \<or> get_direction fsum c tid = Inr (Some ''entrada'')
     \<or> get_direction fsum c tid = Inr (Some ''saida'')"
  unfolding get_direction_def direction_of_eq by simp

subsection \<open>One loop iteration\<close>

lemma append_position_counted [simp]:
  "counted_vehicles (append_position c tid y) = counted_vehicles c"
  by (simp add: append_position_def Let_def)

lemma append_position_stats [simp]:
  "stats (append_position c tid y) = stats c"
  by (simp add: append_position_def Let_def)

lemma append_position_line [simp]:
  "line_y (append_position c tid y) = line_y c"
  by (simp add: append_position_def Let_def)

lemma register_count_line [simp]:
  "line_y (register_count c colors ts v tid dir) = line_y c"
  by (simp add: register_count_def Let_def)

lemma center_y_of_total: "\<exists>cy. center_y_of v = Inr cy"
  by (cases "v_bbox v") (simp add: center_y_of_def fdiv_def)

lemma crossed_line_total:
  "float_of_int (line_y c) = Inr l \<Longrightarrow> \<exists>b. crossed_line c tid cy = Inr b"
  by (simp add: crossed_line_def)

lemma step_cases:
  assumes "float_of_int (line_y c) = Inr l"
  shows
  "(\<exists>c'. update_vehicle_step fsum c colors ts v = Inr (c', [])
          \<and> counted_vehicles c' = counted_vehicles c \<and> stats c' = stats c
          \<and> line_y c' = line_y c)
   \<or> (\<exists>tid dir c1. tid \<notin> counted_vehicles c \<and> dir \<noteq> []
          \<and> counted_vehicles c1 = counted_vehicles c \<and> stats c1 = stats c
          \<and> line_y c1 = line_y c
          \<and> update_vehicle_step fsum c colors ts v
              = Inr (register_count c1 colors ts v tid dir, [(tid, dir)]))"
proof -
  define tid where "tid = (case v_track_id v of None \<Rightarrow> - 1 | Some t \<Rightarrow> t)"
  obtain cy where cy: "center_y_of v = Inr cy" using center_y_of_total by blast
  define c1 where "c1 = append_position c tid cy"
  have c1: "counted_vehicles c1 = counted_vehicles c" "stats c1 = stats c"
    "line_y c1 = line_y c"
    by (simp_all add: c1_def)
  have "float_of_int (line_y c1) = Inr l" using assms c1 by simp
  then obtain b where b: "crossed_line c1 tid cy = Inr b" using crossed_line_total by blast
  have unf: "update_vehicle_step fsum c colors ts v =
      (if tid < 0 then Inr (c, [])
       else if tid \<in> counted_vehicles c1 then Inr (c1, [])
       else if b then
                (case get_direction fsum c1 tid of
                   Inl e \<Rightarrow> Inl e
                 | Inr None \<Rightarrow> Inr (c1, [])
                 | Inr (Some dir) \<Rightarrow>
                     if dir = [] then Inr (c1, [])
                     else Inr (register_count c1 colors ts v tid dir, [(tid, dir)]))
              else Inr (c1, []))"
    using b unfolding update_vehicle_step_def Let_def tid_def[symmetric] cy c1_def
    by simp
  from get_direction_cases[of fsum c1 tid] show ?thesis
  proof (elim disjE)
    assume "get_direction fsum c1 tid = Inr None"
    then show ?thesis using c1 by (auto simp: unf)
  next
    assume g: "get_direction fsum c1 tid = Inr (Some ''entrada'')"
    show ?thesis
    proof (cases "tid < 0 \<or> tid \<in> counted_vehicles c1 \<or> \<not> b")
      case True
      then show ?thesis using c1 by (auto simp: unf)
    next
      case False
      then have "update_vehicle_step fsum c colors ts v
          = Inr (register_count c1 colors ts v tid ''entrada'', [(tid, ''entrada'')])"
        by (simp add: unf g)
      moreover have "tid \<notin> counted_vehicles c" using False c1 by simp
      ultimately show ?thesis using c1 by blast
    qed
  next
    assume g: "get_direction fsum c1 tid = Inr (Some ''saida'')"
    show ?thesis
    proof (cases "tid < 0 \<or> tid \<in> counted_vehicles c1 \<or> \<not> b")
      case True
      then show ?thesis using c1 by (auto simp: unf)
    next
      case False
      then have "update_vehicle_step fsum c colors ts v
          = Inr (register_count c1 colors ts v tid ''saida'', [(tid, ''saida'')])"
        by (simp add: unf g)
      moreover have "tid \<notin> counted_vehicles c" using False c1 by simp
      ultimately show ?thesis using c1 by blast
    qed
  qed
qed

subsection \<open>The counting invariant\<close>

lemma register_count_consistent:
  assumes "counted_consistent c1 em" and "tid \<notin> counted_vehicles c1"
  shows "counted_consistent (register_count c1 colors ts v tid dir) (em @ [(tid, dir)])"
  using assms by (auto simp: counted_consistent_def register_count_def Let_def)

lemma counted_consistent_cong:
  "counted_vehicles c' = counted_vehicles c \<Longrightarrow> stats c' = stats c
     \<Longrightarrow> counted_consistent c em \<Longrightarrow> counted_consistent c' em"
  by (simp add: counted_consistent_def)

lemma step_consistent:
  assumes "counted_consistent c em" and "float_of_int (line_y c) = Inr l"
  shows "\<exists>c' out. update_vehicle_step fsum c colors ts v = Inr (c', out)
           \<and> counted_consistent c' (em @ out) \<and> line_y c' = line_y c"
  using step_cases[OF assms(2), of fsum colors ts v]
proof (elim disjE exE conjE)
  fix c' assume "update_vehicle_step fsum c colors ts v = Inr (c', [])"
    "counted_vehicles c' = counted_vehicles c" "stats c' = stats c" "line_y c' = line_y c"
  then show ?thesis using assms counted_consistent_cong[of c' c em] by auto
next
  fix tid dir c1
  assume h: "tid \<notin> counted_vehicles c" "counted_vehicles c1 = counted_vehicles c"
    "stats c1 = stats c" "line_y c1 = line_y c"
    "update_vehicle_step fsum c colors ts v
       = Inr (register_count c1 colors ts v tid dir, [(tid, dir)])"
  have "counted_consistent c1 em" using h assms counted_consistent_cong[of c1 c em] by simp
  then have "counted_consistent (register_count c1 colors ts v tid dir) (em @ [(tid, dir)])"
    using h by (intro register_count_consistent) simp_all
  moreover have "line_y (register_count c1 colors ts v tid dir) = line_y c" using h by simp
  ultimately show ?thesis using h by blast
qed

lemma update_loop_consistent:
  "counted_consistent c (em @ acc) \<Longrightarrow> float_of_int (line_y c) = Inr l \<Longrightarrow>
     \<exists>c' out. update_loop fsum c colors ts vs acc = Inr (c', acc @ out)
        \<and> counted_consistent c' (em @ acc @ out) \<and> line_y c' = line_y c"
proof (induction vs arbitrary: c acc)
  case Nil
  then show ?case by simp
next
  case (Cons v vs)
  from step_consistent[OF Cons.prems, of fsum colors ts v]
  obtain c1 out1 where s: "update_vehicle_step fsum c colors ts v = Inr (c1, out1)"
    and i1: "counted_consistent c1 ((em @ acc) @ out1)" and l1: "line_y c1 = line_y c"
    by blast
  from i1 have i1': "counted_consistent c1 (em @ (acc @ out1))" by simp
  have f1: "float_of_int (line_y c1) = Inr l" using Cons.prems(2) l1 by simp
  from Cons.IH[OF i1' f1]
  obtain c' out where
    l: "update_loop fsum c1 colors ts vs (acc @ out1) = Inr (c', (acc @ out1) @ out)"
    and i2: "counted_consistent c' (em @ (acc @ out1) @ out)"
    and l2: "line_y c' = line_y c1" by blast
  have "update_loop fsum c colors ts (v # vs) acc = Inr (c', acc @ (out1 @ out))"
    using s l by simp
  moreover have "counted_consistent c' (em @ acc @ (out1 @ out))" using i2 by simp
  moreover have "line_y c' = line_y c" using l1 l2 by simp
  ultimately show ?case by blast
qed

lemma update_consistent:
  assumes "counted_consistent c em" and "float_of_int (line_y c) = Inr l"
  shows "\<exists>c' out. update fsum c vs colors ts = Inr (c', out)
           \<and> counted_consistent c' (em @ out) \<and> line_y c' = line_y c"
  using update_loop_consistent[of c em "[]" l fsum colors ts vs] assms
  by (simp add: update_def)

lemma run_updates_consistent:
  "counted_consistent c em \<Longrightarrow> float_of_int (line_y c) = Inr l \<Longrightarrow>
     \<exists>c' out. run_updates fsum c calls = Inr (c', out) \<and> counted_consistent c' (em @ out)"
proof (induction calls arbitrary: c em)
  case Nil
  then show ?case by simp
next
  case (Cons call calls)
  obtain vs colors ts where call: "call = (vs, colors, ts)" by (cases call) auto
  from update_consistent[OF Cons.prems, of fsum vs colors ts]
  obtain c1 out1 where u: "update fsum c vs colors ts = Inr (c1, out1)"
    and i1: "counted_consistent c1 (em @ out1)" and l1: "line_y c1 = line_y c" by blast
  have f1: "float_of_int (line_y c1) = Inr l" using Cons.prems(2) l1 by simp
  from Cons.IH[OF i1 f1]
  obtain c' out where r: "run_updates fsum c1 calls = Inr (c', out)"
    and i2: "counted_consistent c' ((em @ out1) @ out)" by blast
  have "run_updates fsum c (call # calls) = Inr (c', out1 @ out)" using u r call by simp
  then show ?case using i2 by auto
qed

lemma init_fields:
  assumes "VehicleCounter_init fh lp = Inr c0"
  shows "int_of_product fh lp = Inr (line_y c0)"
    and "int_of_product fh (py_literal 0.05) = Inr (zone_margin c0)"
    and "frame_height c0 = fh" and "counted_vehicles c0 = {}"
    and "position_history c0 = Map.empty" and "stats c0 = CountingStats_new"
  using assms by (auto simp: VehicleCounter_init_def split: sum.splits)

lemma init_consistent:
  "VehicleCounter_init fh lp = Inr c0 \<Longrightarrow> counted_consistent c0 []"
  by (auto simp: VehicleCounter_init_def counted_consistent_def CountingStats_new_def
      split: sum.splits)

lemma init_line_convertible:
  assumes "VehicleCounter_init fh lp = Inr c0"
  shows "float_of_int (line_y c0) = Inr (Finite (real_of_int (line_y c0)))"
proof -
  from int_of_product_Inr[OF init_fields(1)[OF assms]]
  obtain q where "line_y c0 = py_trunc (double_round q)" and "\<bar>double_round q\<bar> < 2 ^ 1024"
    by blast
  then show ?thesis using float_of_int_trunc[of q] by simp
qed

lemma consistent_facts:
  assumes "counted_consistent c em"
  shows "distinct (map fst em)"
    and "total_entrada (stats c) + total_saida (stats c) = int (length em)"
    and "length em = length (registros (stats c))"
    and "distinct (map r_track_id (registros (stats c)))"
    and "map (\<lambda>r. (r_track_id r, r_direction r)) (registros (stats c)) = em"
proof -
  from assms have m: "map (\<lambda>r. (r_track_id r, r_direction r)) (registros (stats c)) = em"
    and d: "distinct (map fst em)"
    and te: "total_entrada (stats c) = int (length (filter (\<lambda>p. snd p = ''entrada'') em))"
    and ts: "total_saida (stats c) = int (length (filter (\<lambda>p. snd p \<noteq> ''entrada'') em))"
    by (simp_all add: counted_consistent_def)
  show "distinct (map fst em)" by (rule d)
  show "map (\<lambda>r. (r_track_id r, r_direction r)) (registros (stats c)) = em" by (rule m)
  have "length (filter (\<lambda>p. snd p = ''entrada'') em)
          + length (filter (\<lambda>p. snd p \<noteq> ''entrada'') em) = length em"
    using sum_length_filter_compl[of "\<lambda>p. snd p = ''entrada''" em] by simp
  then show "total_entrada (stats c) + total_saida (stats c) = int (length em)"
    using te ts by simp
  from m have "length (map (\<lambda>r. (r_track_id r, r_direction r)) (registros (stats c))) = length em"
    by simp
  then show "length em = length (registros (stats c))" by simp
  have "map fst em = map r_track_id (registros (stats c))"
    unfolding m[symmetric] by simp
  then show "distinct (map r_track_id (registros (stats c)))" using d by simp
qed

subsection \<open>Doubles of the examples\<close>

lemma double_005:
  "double_round (1 / 20) = 3602879701896397 / 2 ^ 56"
  using double_round_scaled[of "1 / 20" 57 "7205759403792794"] by simp

lemma double_600_005:
  "double_round (600 * (3602879701896397 / 2 ^ 56)) = 30"
  using double_round_scaled[of "600 * (3602879701896397 / 2 ^ 56)" 48 "8444249301319680"] by simp

lemma double_760_3:
  "double_round (760 / 3) = 8913374262504107 / 35184372088832"
  using double_round_scaled[of "760 / 3" 45 "8913374262504107"] by simp

lemma double_scenario_movement:
  "double_round (8913374262504107 / 35184372088832 - 125) = 4515327751400107 / 35184372088832"
  using double_round_scaled[of "8913374262504107 / 35184372088832 - 125" 45 "4515327751400107"] by simp

lemma py_literal_005: "py_literal 0.05 = Finite (3602879701896397 / 2 ^ 56)"
  unfolding py_literal_def using double_005 by simp

lemma int_of_product_eval:
  assumes "\<bar>k\<bar> < 2 ^ 53" and "double_round (of_int k * x) = r" and "\<bar>r\<bar> < 2 ^ 1024"
  shows "int_of_product k (Finite x) = Inr (py_trunc r)"
  using int_of_product_small[of k x] assms by simp

lemmas float_eval =
  fadd_def fsub_def fneg_def fquot_def fdiv_def fabs_def fmul_def to_double_def Let_def
  lt_real_def gt_real_def float_of_int_def double_round_numeral double_round_neg_numeral

lemma init_600: "VehicleCounter_init 600 (Finite (1/2)) = Inr counter_600"
proof -
  have a: "int_of_product 600 (Finite (1/2)) = Inr (py_trunc 300)"
    by (rule int_of_product_eval) (simp_all add: double_round_numeral)
  have b: "int_of_product 600 (py_literal 0.05) = Inr (py_trunc 30)"
    unfolding py_literal_005
    by (rule int_of_product_eval) (use double_600_005 in simp_all)
  have t: "py_trunc 300 = 300" "py_trunc 30 = 30" by (simp_all add: py_trunc_def)
  show ?thesis unfolding VehicleCounter_init_def a b t counter_600_def by simp
qed

lemma scenario_direction:
  "direction_of seq_sum [Finite 100, Finite 150, Finite 200, Finite 250, Finite 310]
     = Inr (Some ''entrada'')"
proof -
  have s1: "seq_sum [Finite 100, Finite 150] = Finite 250"
    by (simp add: seq_sum_def float_eval)
  have s2: "seq_sum [Finite 200, Finite 250, Finite 310] = Finite 760"
    by (simp add: seq_sum_def float_eval)
  have q1: "fquot (Finite 250) (Finite 2) = Finite 125"
    by (simp add: float_eval)
  have q2: "fquot (Finite 760) (Finite 3) = Finite (8913374262504107 / 35184372088832)"
    unfolding fquot_def to_double_def Let_def prod.case pyfloat.case double_760_3 by simp
  have mv: "fsub (Finite (8913374262504107 / 35184372088832)) (Finite 125) = Finite (4515327751400107 / 35184372088832)"
  proof -
    have a: "fsub (Finite (8913374262504107 / 35184372088832)) (Finite 125)
        = to_double (8913374262504107 / 35184372088832 - 125)"
      by (simp add: fsub_def fadd_def fneg_def)
    have b: "to_double (8913374262504107 / 35184372088832 - 125) = Finite (4515327751400107 / 35184372088832)"
      unfolding to_double_def Let_def double_scenario_movement by simp
    show ?thesis by (rule trans[OF a b])
  qed
  have "computed_movement seq_sum [Finite 100, Finite 150, Finite 200, Finite 250, Finite 310]
      = Finite (4515327751400107 / 35184372088832)"
    by (simp add: computed_movement_def s1 s2 q1 q2 mv)
  then show ?thesis unfolding direction_of_eq by (simp add: gt_real_def)
qed

lemma scenario_result:
  "\<exists>c. run_updates seq_sum counter_600 scenario_calls = Inr (c, [(7, ''entrada'')])
      \<and> total_entrada (stats c) = 1 \<and> total_saida (stats c) = 0
      \<and> map r_color (registros (stats c)) = [''azul'']"
  by (simp add: counter_600_def scenario_calls_def vehicle_at_def update_def
      update_vehicle_step_def center_y_of_def append_position_def crossed_line_def
      get_direction_def scenario_direction register_count_def bump_def last_n_def
      CountingStats_new_def float_eval)

lemma double_005': "double_round 0.05 = 3602879701896397 / 2 ^ 56"
  using double_005 by simp

lemma margin_div20:
  assumes "0 \<le> fh" and "fh < 2 ^ 40"
  shows "py_trunc (double_round (real_of_int fh * double_round 0.05)) = fh div 20"
proof -
  define q where "q = fh div 20"
  define r where "r = fh mod 20"
  define y where "y = real_of_int fh * (3602879701896397 / 2 ^ 56)"
  have fh: "fh = 20 * q + r" unfolding q_def r_def by simp
  have r: "0 \<le> r" "r \<le> 19" unfolding r_def by simp_all
  have q: "0 \<le> q" "q < 2 ^ 40" using assms unfolding q_def by simp_all
  have rr: "0 \<le> real_of_int r" "real_of_int r \<le> 19" using r by simp_all
  have qq: "0 \<le> real_of_int q" "real_of_int q < 2 ^ 40"
    using q by simp_all
  have yq: "y = (20 * real_of_int q + real_of_int r) * (3602879701896397 / 2 ^ 56)"
    unfolding y_def fh by simp
  have lo: "real_of_int q \<le> y" unfolding yq using rr qq by simp
  have hi: "y \<le> real_of_int (64 * q + 63) / 2 ^ 6" unfolding yq using rr qq by simp
  have y0: "0 \<le> y" using lo qq by linarith
  have ys: "\<bar>y\<bar> * 2 ^ 6 < 2 ^ 53" using y0 hi qq by simp
  have yb: "\<bar>y\<bar> < 2 ^ 53" using ys y0 by simp
  have a: "real_of_int q \<le> double_round y" by (rule double_round_ge_int[OF lo yb])
  have b: "double_round y \<le> real_of_int (64 * q + 63) / 2 ^ 6"
    by (rule double_round_le_dyadic[OF hi ys]) simp
  have c: "double_round y < real_of_int q + 1" using b by simp
  have "0 \<le> double_round y" using a qq by linarith
  then have "py_trunc (double_round y) = \<lfloor>double_round y\<rfloor>" by (simp add: py_trunc_def)
  also have "\<dots> = q" using a c by linarith
  finally show ?thesis unfolding y_def q_def double_005' .
qed

lemma double_06:
  "double_round (3 / 5) = 5404319552844595 / 9007199254740992"
  using double_round_scaled[of "3 / 5" 53 "5404319552844595"] by simp

lemma double_18_06:
  "double_round (18 * (5404319552844595 / 9007199254740992)) = 6079859496950169 / 562949953421312"
  using double_round_scaled[of "18 * (5404319552844595 / 9007199254740992)" 49 "6079859496950169"] by simp

lemma double_18_005:
  "double_round (18 * (3602879701896397 / 72057594037927936)) = 8106479329266893 / 9007199254740992"
  using double_round_scaled[of "18 * (3602879701896397 / 72057594037927936)" 53 "8106479329266893"] by simp


lemma double_tiny_30:
  "double_round (1 / 1152921504606846976 - 30) = - 30"
  using double_round_scaled[of "1 / 1152921504606846976 - 30" 48 "- 8444249301319680"] by simp

lemma double_half_101:
  "double_round (101 / 2) = 101 / 2"
  using double_round_scaled[of "101 / 2" 47 "7107243161944064"] by simp

lemma double_half_205:
  "double_round (205 / 2) = 205 / 2"
  using double_round_scaled[of "205 / 2" 46 "7212796278210560"] by simp

lemma double_half_319:
  "double_round (319 / 2) = 319 / 2"
  using double_round_scaled[of "319 / 2" 45 "5611907348168704"] by simp

lemma double_half_131:
  "double_round (131 / 2) = 131 / 2"
  using double_round_scaled[of "131 / 2" 46 "4609152743636992"] by simp

lemma double_half_281:
  "double_round (281 / 2) = 281 / 2"
  using double_round_scaled[of "281 / 2" 45 "4943404278480896"] by simp

lemma double_half_439:
  "double_round (439 / 2) = 439 / 2"
  using double_round_scaled[of "439 / 2" 45 "7722969673498624"] by simp

lemma double_mean_start:
  "double_round (319 / 2 / 3) = 7482543130891605 / 140737488355328"
  using double_round_scaled[of "319 / 2 / 3" 47 "7482543130891605"] by simp

lemma double_mean_end:
  "double_round (439 / 2 / 3) = 5148646448999083 / 70368744177664"
  using double_round_scaled[of "439 / 2 / 3" 46 "5148646448999083"] by simp

lemma double_boundary_movement:
  "double_round (5148646448999083 / 70368744177664 - 7482543130891605 / 140737488355328) = 2814749767106561 / 140737488355328"
  using double_round_scaled[of "5148646448999083 / 70368744177664 - 7482543130891605 / 140737488355328" 48 "5629499534213122"] by simp

lemma fadd_eval:
  "double_round (x + y) = r \<Longrightarrow> \<bar>r\<bar> < 2 ^ 1024 \<Longrightarrow> fadd (Finite x) (Finite y) = Finite r"
  by (auto simp: fadd_def to_double_def Let_def)

lemma fsub_eval:
  "double_round (x - y) = r \<Longrightarrow> \<bar>r\<bar> < 2 ^ 1024 \<Longrightarrow> fsub (Finite x) (Finite y) = Finite r"
  by (auto simp: fsub_def fneg_def fadd_def to_double_def Let_def)

lemma fquot_eval:
  "double_round (x / y) = r \<Longrightarrow> \<bar>r\<bar> < 2 ^ 1024 \<Longrightarrow> fquot (Finite x) (Finite y) = Finite r"
  by (auto simp: fquot_def to_double_def Let_def)

lemma py_literal_06: "py_literal 0.6 = Finite (5404319552844595 / 9007199254740992)"
  unfolding py_literal_def using double_06 by simp

lemma py_literal_005n: "py_literal 0.05 = Finite (3602879701896397 / 72057594037927936)"
  unfolding py_literal_def using double_005 by simp

subsection \<open>Counting\<close>

text \<open>
  Claim C1. At-most-once counting: every sequence of calls of \<^verbatim>\<open>update\<close> on a freshly
  constructed counter returns normally, no track id occurs in more than one emitted pair,
  \<^verbatim>\<open>total_entrada + total_saida\<close> is the number of emitted pairs, which is the length
  of the record list, and each track id occurs in at most one record (the records are, in
  order, the emitted pairs). It holds whatever the summation of \<^verbatim>\<open>sum\<close> returns.
\<close>

theorem at_most_once_counting:
  assumes "VehicleCounter_init fh lp = Inr c0"
  shows "\<exists>c em. run_updates fsum c0 calls = Inr (c, em)
           \<and> distinct (map fst em)
           \<and> total_entrada (stats c) + total_saida (stats c) = int (length em)
           \<and> length em = length (registros (stats c))
           \<and> distinct (map r_track_id (registros (stats c)))
           \<and> map (\<lambda>r. (r_track_id r, r_direction r)) (registros (stats c)) = em"
proof -
  from run_updates_consistent[OF init_consistent[OF assms] init_line_convertible[OF assms],
         of fsum calls]
  obtain c em where r: "run_updates fsum c0 calls = Inr (c, em)"
    and i: "counted_consistent c em"
    by auto
  show ?thesis using r consistent_facts[OF i] by blast
qed

text \<open>
  The specification's end-to-end scenario as an instance: the seven frames of track 7
  yield the single pair (7, entrada), one record and a total of one.
\<close>

theorem at_most_once_counting_witness:
  "VehicleCounter_init 600 (Finite (1/2)) = Inr counter_600
   \<and> (\<exists>c. run_updates seq_sum counter_600 scenario_calls = Inr (c, [(7, ''entrada'')])
          \<and> total_entrada (stats c) + total_saida (stats c) = 1
          \<and> length (registros (stats c)) = 1
          \<and> distinct (map r_track_id (registros (stats c))))"
  using at_most_once_counting[OF init_600, of seq_sum scenario_calls] scenario_result init_600
  by auto

subsection \<open>Direction\<close>

lemma boundary_direction:
  "direction_of seq_sum (map Finite boundary_history) = Inr (Some ''entrada'')"
proof -
  have s1: "seq_sum [Finite (101 / 2), Finite 52, Finite 57] = Finite (319 / 2)"
    by (simp add: seq_sum_def float_eval double_half_101 double_half_205 double_half_319)
  have s2: "seq_sum [Finite (131 / 2), Finite 75, Finite 79] = Finite (439 / 2)"
    by (simp add: seq_sum_def float_eval double_half_131 double_half_281 double_half_439)
  have q1: "fquot (Finite (319 / 2)) (Finite 3) = Finite (7482543130891605 / 140737488355328)"
    by (rule fquot_eval[OF double_mean_start]) simp
  have q2: "fquot (Finite (439 / 2)) (Finite 3) = Finite (5148646448999083 / 70368744177664)"
    by (rule fquot_eval[OF double_mean_end]) simp
  have mv: "fsub (Finite (5148646448999083 / 70368744177664)) (Finite (7482543130891605 / 140737488355328)) = Finite (2814749767106561 / 140737488355328)"
    by (rule fsub_eval[OF double_boundary_movement]) simp
  have "computed_movement seq_sum (map Finite boundary_history) = Finite (2814749767106561 / 140737488355328)"
    by (simp add: computed_movement_def boundary_history_def s1 s2 q1 q2 mv)
  then show ?thesis unfolding direction_of_eq
    by (simp add: gt_real_def boundary_history_def)
qed

text \<open>
  Claim C4, as the code has it. A direction is produced only from a history of at least
  5 samples; the history is split at \<open>len div 2\<close>; each half is summed and divided by its
  length and the first mean is subtracted from the second, every step in double
  precision. That computed difference gives \<^verbatim>\<open>entrada\<close> when above 20, \<^verbatim>\<open>saida\<close> when
  below -20 and no direction anywhere in between, the bounds 20 and -20 included (and
  none when it is NaN). The means never divide by zero.
\<close>

theorem direction_inference:
  "get_direction fsum c tid =
     Inr (let ps = (case position_history c tid of None \<Rightarrow> [] | Some ps \<Rightarrow> ps)
          in if length ps < 5 then None
             else if gt_real (computed_movement fsum ps) 20 then Some ''entrada''
             else if lt_real (computed_movement fsum ps) (- 20) then Some ''saida''
             else None)"
  unfolding get_direction_def Let_def by (rule direction_of_eq)

text \<open>
  The half-pixel history 50.5, 52, 57, 65.5, 75, 79: the means of its halves, 159.5 / 3
  and 219.5 / 3, differ by exactly 20, yet the two quotients round apart and the code
  returns \<^verbatim>\<open>entrada\<close>. All partial sums are exact, whatever the order of summation.
\<close>

theorem direction_boundary_counterexample:
  "half_split_movement boundary_history = 20
   \<and> direction_of seq_sum (map Finite boundary_history) = Inr (Some ''entrada'')"
  using boundary_direction by (simp add: half_split_movement_def boundary_history_def)

subsection \<open>Construction and the counting zone\<close>

lemma init_products:
  assumes "VehicleCounter_init fh lp = Inr c" and "\<bar>fh\<bar> < 2 ^ 53"
  shows "\<exists>x. lp = Finite x
           \<and> line_y c = py_trunc (double_round (real_of_int fh * x))
           \<and> zone_margin c = py_trunc (double_round (real_of_int fh * double_round 0.05))"
proof -
  have fh: "double_round (real_of_int fh) = real_of_int fh"
    by (rule double_round_int[OF assms(2)])
  from int_of_product_Inr[OF init_fields(1)[OF assms(1)]]
  obtain x where x: "lp = Finite x"
    and l: "line_y c = py_trunc (double_round (double_round (real_of_int fh) * x))"
    by blast
  from int_of_product_Inr[OF init_fields(2)[OF assms(1)]]
  obtain z where z: "py_literal 0.05 = Finite z"
    and m: "zone_margin c = py_trunc (double_round (double_round (real_of_int fh) * z))"
    by blast
  from z have "z = double_round 0.05" by (simp add: py_literal_def)
  then show ?thesis using x l m unfolding fh by simp
qed

lemma crossed_line_eq:
  assumes "VehicleCounter_init fh lp = Inr c"
  shows "crossed_line c tid cy =
           Inr (lt_real (fabs (fsub cy (Finite (real_of_int (line_y c)))))
                  (real_of_int (zone_margin c)))"
  by (simp add: crossed_line_def init_line_convertible[OF assms])

lemma half_pixel_difference:
  assumes "\<bar>k\<bar> < 2 ^ 52" and "\<bar>l\<bar> < 2 ^ 51"
  shows "fsub (Finite (real_of_int k / 2)) (Finite (real_of_int l))
           = Finite (real_of_int k / 2 - real_of_int l)"
proof -
  have e: "real_of_int k / 2 - real_of_int l = real_of_int (k - 2 * l) / 2 ^ 1" by simp
  have b: "\<bar>k - 2 * l\<bar> < 2 ^ 53" using assms by simp
  have d: "double_round (real_of_int k / 2 - real_of_int l) = real_of_int k / 2 - real_of_int l"
    unfolding e by (rule double_round_dyadic[OF b]) simp
  have "\<bar>real_of_int (k - 2 * l)\<bar> < 2 ^ 53"
    using b by (metis of_int_abs of_int_less_numeral_power_cancel_iff)
  moreover have "(2::real) ^ 53 \<le> 2 ^ 1024" by (rule power_increasing) simp_all
  ultimately have "\<bar>real_of_int (k - 2 * l)\<bar> < 2 ^ 1024" by linarith
  then have "\<bar>real_of_int k / 2 - real_of_int l\<bar> < 2 ^ 1024" unfolding e by simp
  then show ?thesis by (intro fsub_eval[OF d])
qed

text \<open>
  Claim C2, as the code has it. For a counter accepted at construction (the height
  below \<open>2 ^ 53\<close> in magnitude, so that its conversion to a float is exact) the line
  position is a finite float and the constructor stores
  \<^verbatim>\<open>line_y = int(frame_height * line_position)\<close> and
  \<^verbatim>\<open>zone_margin = int(frame_height * 0.05)\<close>: the products taken in double precision and
  truncated toward zero where the specification rounds; the margin is the integer
  quotient of the height by 20 for a height from 0 to \<open>2 ^ 40\<close>. A centre is in the
  counting zone exactly when the distance to \<^verbatim>\<open>line_y\<close>, as the float subtraction gives
  it, is strictly less than \<^verbatim>\<open>zone_margin\<close>; for a centre on the half-pixel grid the
  subtraction is exact.
\<close>

theorem counting_zone_geometry:
  assumes "VehicleCounter_init fh lp = Inr c" and "\<bar>fh\<bar> < 2 ^ 53"
  shows "\<exists>x. lp = Finite x
           \<and> line_y c = py_trunc (double_round (real_of_int fh * x))
           \<and> zone_margin c = py_trunc (double_round (real_of_int fh * double_round 0.05))
           \<and> (0 \<le> fh \<and> fh < 2 ^ 40 \<longrightarrow> zone_margin c = fh div 20)
           \<and> (\<forall>tid cy. crossed_line c tid cy =
                 Inr (lt_real (fabs (fsub cy (Finite (real_of_int (line_y c)))))
                        (real_of_int (zone_margin c))))
           \<and> (\<forall>tid k. \<bar>k\<bar> < 2 ^ 52 \<and> \<bar>line_y c\<bar> < 2 ^ 51 \<longrightarrow>
                 crossed_line c tid (Finite (real_of_int k / 2)) =
                   Inr (\<bar>real_of_int k / 2 - real_of_int (line_y c)\<bar>
                          < real_of_int (zone_margin c)))"
proof -
  from init_products[OF assms] obtain x where x: "lp = Finite x"
    and l: "line_y c = py_trunc (double_round (real_of_int fh * x))"
    and m: "zone_margin c = py_trunc (double_round (real_of_int fh * double_round 0.05))"
    by blast
  have d: "0 \<le> fh \<and> fh < 2 ^ 40 \<longrightarrow> zone_margin c = fh div 20"
    using margin_div20[of fh] m by simp
  have z: "\<forall>tid cy. crossed_line c tid cy =
                 Inr (lt_real (fabs (fsub cy (Finite (real_of_int (line_y c)))))
                        (real_of_int (zone_margin c)))"
    using crossed_line_eq[OF assms(1)] by blast
  have h: "\<forall>tid k. \<bar>k\<bar> < 2 ^ 52 \<and> \<bar>line_y c\<bar> < 2 ^ 51 \<longrightarrow>
                 crossed_line c tid (Finite (real_of_int k / 2)) =
                   Inr (\<bar>real_of_int k / 2 - real_of_int (line_y c)\<bar>
                          < real_of_int (zone_margin c))"
  proof (intro allI impI)
    fix tid :: int and k :: int assume a: "\<bar>k\<bar> < 2 ^ 52 \<and> \<bar>line_y c\<bar> < 2 ^ 51"
    then have "fsub (Finite (real_of_int k / 2)) (Finite (real_of_int (line_y c)))
        = Finite (real_of_int k / 2 - real_of_int (line_y c))"
      by (intro half_pixel_difference) simp_all
    then show "crossed_line c tid (Finite (real_of_int k / 2)) =
                   Inr (\<bar>real_of_int k / 2 - real_of_int (line_y c)\<bar>
                          < real_of_int (zone_margin c))"
      unfolding crossed_line_eq[OF assms(1)] by (simp add: fabs_def lt_real_def)
  qed
  show ?thesis using x l m d z h by blast
qed

text \<open>
  At height 600 and position 0.5 the line is at 300 and the margin is 30: a centre at
  310 is in the zone, one at 330 (distance exactly 30) is not.
\<close>

theorem counting_zone_geometry_witness:
  "VehicleCounter_init 600 (Finite (1/2)) = Inr counter_600
   \<and> \<bar>600 :: int\<bar> < 2 ^ 53
   \<and> line_y counter_600 = 300 \<and> zone_margin counter_600 = 30
   \<and> zone_margin counter_600 = 600 div 20
   \<and> crossed_line counter_600 7 (Finite 310) = Inr True
   \<and> crossed_line counter_600 7 (Finite 330) = Inr False"
proof -
  have f: "line_y counter_600 = 300" "zone_margin counter_600 = 30"
    by (simp_all add: counter_600_def)
  have b: "\<bar>600 :: int\<bar> < 2 ^ 53" by simp
  from counting_zone_geometry[OF init_600 b]
  have h: "\<forall>tid k. \<bar>k\<bar> < 2 ^ 52 \<and> \<bar>line_y counter_600\<bar> < 2 ^ 51 \<longrightarrow>
                 crossed_line counter_600 tid (Finite (real_of_int k / 2)) =
                   Inr (\<bar>real_of_int k / 2 - real_of_int (line_y counter_600)\<bar>
                          < real_of_int (zone_margin counter_600))"
    and d: "0 \<le> (600::int) \<and> (600::int) < 2 ^ 40 \<longrightarrow> zone_margin counter_600 = 600 div 20"
    by blast+
  from h have "\<bar>620 :: int\<bar> < 2 ^ 52 \<and> \<bar>line_y counter_600\<bar> < 2 ^ 51 \<longrightarrow>
                 crossed_line counter_600 7 (Finite (real_of_int 620 / 2)) =
                   Inr (\<bar>real_of_int 620 / 2 - real_of_int (line_y counter_600)\<bar>
                          < real_of_int (zone_margin counter_600))" by blast
  then have a: "crossed_line counter_600 7 (Finite 310) = Inr True" by (simp add: f)
  from h have "\<bar>660 :: int\<bar> < 2 ^ 52 \<and> \<bar>line_y counter_600\<bar> < 2 ^ 51 \<longrightarrow>
                 crossed_line counter_600 7 (Finite (real_of_int 660 / 2)) =
                   Inr (\<bar>real_of_int 660 / 2 - real_of_int (line_y counter_600)\<bar>
                          < real_of_int (zone_margin counter_600))" by blast
  then have c: "crossed_line counter_600 7 (Finite 330) = Inr False" by (simp add: f)
  show ?thesis using init_600 f a c d by simp
qed

text \<open>
  Where rounding and truncation differ: at height 18 and position 0.6 the products are
  10.799999999999999 and 0.9; the constructor stores 10 and 0, rounding gives 11 and 1.
  Where the float subtraction is not exact: with the line at 30 and a margin of 30 (height
  600, position 0.05), a centre at \<open>1 / 2 ^ 60\<close> is at a distance below 30, yet the computed
  difference is -30 and the centre is not in the zone.
\<close>

theorem line_y_round_counterexample:
  "VehicleCounter_init 18 (py_literal 0.6) =
     Inr \<lparr>frame_height = 18, line_y = 10, zone_margin = 0,
          counted_vehicles = {}, position_history = Map.empty, stats = CountingStats_new\<rparr>
   \<and> spec_line_y 18 (value_of (py_literal 0.6)) = 11
   \<and> spec_zone_margin 18 = 1
   \<and> VehicleCounter_init 600 (py_literal 0.05) =
       Inr \<lparr>frame_height = 600, line_y = 30, zone_margin = 30,
            counted_vehicles = {}, position_history = Map.empty, stats = CountingStats_new\<rparr>
   \<and> crossed_line \<lparr>frame_height = 600, line_y = 30, zone_margin = 30,
            counted_vehicles = {}, position_history = Map.empty, stats = CountingStats_new\<rparr>
        1 (Finite (1 / 2 ^ 60)) = Inr False
   \<and> \<bar>1 / 2 ^ 60 - real_of_int 30\<bar> < real_of_int 30"
proof -
  have a: "int_of_product 18 (py_literal 0.6) = Inr (py_trunc (6079859496950169 / 562949953421312))"
    unfolding py_literal_06
    by (rule int_of_product_eval) (use double_18_06 in simp_all)
  have b: "int_of_product 18 (py_literal 0.05) = Inr (py_trunc (8106479329266893 / 9007199254740992))"
    unfolding py_literal_005n
    by (rule int_of_product_eval) (use double_18_005 in simp_all)
  have c: "int_of_product 600 (py_literal 0.05) = Inr (py_trunc 30)"
    unfolding py_literal_005n
    by (rule int_of_product_eval) (use double_600_005 in simp_all)
  have t: "py_trunc (6079859496950169 / 562949953421312) = 10" "py_trunc (8106479329266893 / 9007199254740992) = 0" "py_trunc 30 = 30"
    by (simp_all add: py_trunc_def)
  have i1: "VehicleCounter_init 18 (py_literal 0.6) =
     Inr \<lparr>frame_height = 18, line_y = 10, zone_margin = 0,
          counted_vehicles = {}, position_history = Map.empty, stats = CountingStats_new\<rparr>"
    unfolding VehicleCounter_init_def a b t by simp
  have i2: "VehicleCounter_init 600 (py_literal 0.05) =
       Inr \<lparr>frame_height = 600, line_y = 30, zone_margin = 30,
            counted_vehicles = {}, position_history = Map.empty, stats = CountingStats_new\<rparr>"
    unfolding VehicleCounter_init_def c t by simp
  have r1: "spec_line_y 18 (value_of (py_literal 0.6)) = 11"
    unfolding py_literal_06 by (simp add: spec_line_y_def value_of_def round_def)
  have r2: "spec_zone_margin 18 = 1"
    by (simp add: spec_zone_margin_def round_def)
  have s: "fsub (Finite (1 / 1152921504606846976)) (Finite 30) = Finite (- 30)"
    by (rule fsub_eval) (use double_tiny_30 in simp_all)
  have f: "float_of_int 30 = Inr (Finite 30)"
    using float_of_int_small[of 30] by simp
  have z: "crossed_line \<lparr>frame_height = 600, line_y = 30, zone_margin = 30,
            counted_vehicles = {}, position_history = Map.empty, stats = CountingStats_new\<rparr>
        1 (Finite (1 / 2 ^ 60)) = Inr False"
    by (simp add: crossed_line_def f s fabs_def lt_real_def)
  have e: "\<bar>1 / 2 ^ 60 - real_of_int 30\<bar> < real_of_int 30" by simp
  show ?thesis using i1 i2 r1 r2 z e by blast
qed

lemma product_in_range:
  assumes "\<bar>fh\<bar> < 2 ^ 53" and "\<bar>x\<bar> \<le> 2 ^ 960"
  shows "\<bar>double_round (real_of_int fh * x)\<bar> < 2 ^ 1024"
proof -
  have f: "\<bar>real_of_int fh\<bar> \<le> 2 ^ 53"
    using assms(1) by (metis less_imp_le of_int_abs of_int_le_numeral_power_cancel_iff)
  have "\<bar>real_of_int fh * x\<bar> = \<bar>real_of_int fh\<bar> * \<bar>x\<bar>" by (rule abs_mult)
  also have "\<dots> \<le> 2 ^ 53 * 2 ^ 960" using f assms(2) by (intro mult_mono) simp_all
  also have "\<dots> = 2 powi 1013" by (simp add: power_add[symmetric])
  finally have "\<bar>double_round (real_of_int fh * x)\<bar> \<le> 2 powi 1013"
    by (intro double_round_abs_le_pow2) simp_all
  moreover have "(2::real) powi 1013 < 2 ^ 1024"
  proof -
    have "(2::real) ^ 1013 < 2 ^ 1024" by (rule power_strict_increasing) simp_all
    then show ?thesis by simp
  qed
  ultimately show ?thesis by linarith
qed







section \<open>The analytics engine\<close>

subsection \<open>Leaving the scene\<close>

lemma finalized_fields [simp]:
  "m_track_id (finalized v ts dir) = m_track_id v"
  "entry_time (finalized v ts dir) = entry_time v"
  "speed_estimates (finalized v ts dir) = speed_estimates v"
  "exit_time (finalized v ts dir) = ts"
  "m_direction (finalized v ts dir) = dir"
  "counted (finalized v ts dir)"
  "positions (finalized v ts dir) = positions v"
  by (simp_all add: finalized_def)

lemma exit_alerts_finalized [simp]:
  "exit_alerts np_mean (finalized v ts' dir) ts clk = exit_alerts np_mean v ts clk"
  by (simp add: exit_alerts_def dwell_alert_def speed_alert_def)

lemma check_alerts_eq:
  "check_alerts np_mean a clk v (double_round (ts - entry_time v))
     = a\<lparr>alerts := alerts a @ exit_alerts np_mean v ts clk\<rparr>"
  by (simp add: check_alerts_def exit_alerts_def Let_def)

lemma vehicle_exited_present:
  assumes "vehicles a tid = Some v"
  shows "vehicle_exited np_mean a tid ts dir clk =
           a\<lparr>vehicles := (vehicles a)(tid \<mapsto> finalized v ts dir),
             dwell_times := dwell_times a @ [double_round (ts - entry_time v)],
             vehicles_in_scene := max 0 (vehicles_in_scene a - 1),
             alerts := alerts a @ exit_alerts np_mean v ts clk\<rparr>"
proof -
  have "vehicle_exited np_mean a tid ts dir clk =
      check_alerts np_mean
        (a\<lparr>vehicles := (vehicles a)(tid \<mapsto> finalized v ts dir),
           dwell_times := dwell_times a @ [double_round (ts - entry_time (finalized v ts dir))],
           vehicles_in_scene := max 0 (vehicles_in_scene a - 1)\<rparr>)
        clk (finalized v ts dir) (double_round (ts - entry_time (finalized v ts dir)))"
    using assms by (simp add: vehicle_exited_def Let_def finalized_def)
  also have "\<dots> = a\<lparr>vehicles := (vehicles a)(tid \<mapsto> finalized v ts dir),
             dwell_times := dwell_times a @ [double_round (ts - entry_time v)],
             vehicles_in_scene := max 0 (vehicles_in_scene a - 1),
             alerts := alerts a @ exit_alerts np_mean v ts clk\<rparr>"
    by (subst check_alerts_eq) simp
  finally show ?thesis .
qed

lemma example_vehicle: "vehicles analytics_example 3 = Some vehicle_3"
  by (simp add: analytics_example_def AdvancedAnalytics_init_def)

lemma fast_vehicle: "vehicles analytics_fast 3 = Some (vehicle_3\<lparr>speed_estimates := [90, 100]\<rparr>)"
  by (simp add: analytics_fast_def AdvancedAnalytics_init_def)

lemma tenth_vehicle: "vehicles analytics_tenth 3 = Some vehicle_tenth"
  by (simp add: analytics_tenth_def AdvancedAnalytics_init_def)

lemma seq_mean_90_100: "seq_mean [90, 100] = 95"
  by (simp add: seq_mean_def double_round_numeral)

lemma span_at_most_60: "x \<le> 60 \<Longrightarrow> double_round x \<le> 60"
proof (cases "\<bar>x\<bar> < 2 ^ 53")
  case True
  assume "x \<le> 60"
  then have "x \<le> real_of_int 60" by simp
  from double_round_le_int[OF this True] show ?thesis by simp
next
  case False
  assume "x \<le> 60"
  with False have neg: "x \<le> - (2 ^ 53)" by simp
  have "double_round x \<le> real_of_int 0 * 2 powi ulp_exponent x"
    by (rule double_round_le_grid) (use neg in simp)
  then show ?thesis by simp
qed

lemma span_above_60:
  assumes "60 + 1 / 2 ^ 47 \<le> x" and "x < 2 ^ 53"
  shows "60 < double_round x"
proof (cases "x < 64")
  case True
  have e: "(60::real) + 1 / 2 ^ 47 = real_of_int (60 * 2 ^ 47 + 1) / 2 ^ 47" by simp
  have "real_of_int (60 * 2 ^ 47 + 1) / 2 ^ 47 \<le> double_round x"
    by (rule double_round_ge_dyadic) (use assms True in \<open>simp_all add: e\<close>)
  then have "60 + 1 / 2 ^ 47 \<le> double_round x" unfolding e .
  then show ?thesis by simp
next
  case False
  then have "real_of_int 64 \<le> x" by simp
  moreover have "\<bar>x\<bar> < 2 ^ 53" using assms False by simp
  ultimately have "real_of_int 64 \<le> double_round x" by (rule double_round_ge_int)
  then show ?thesis by simp
qed

lemma double_dwell_boundary:
  "double_round (8458323050155213 / 140737488355328 - 3602879701896397 / 36028797018963968) = 60"
  using double_round_scaled[of "8458323050155213 / 140737488355328 - 3602879701896397 / 36028797018963968" 47 "8444249301319680"] by simp

text \<open>
  Claim C7, as the code has it. On a known track \<^verbatim>\<open>vehicle_exited\<close> appends to the
  alerts, in this order: exactly one alert of the long-dwell kind (type
  \<^verbatim>\<open>PERMANENCIA_LONGA\<close> in the source), severity \<^verbatim>\<open>warning\<close>, when the dwell time, the
  double-precision difference of the exit and entry times, is strictly above 60, and
  none otherwise; exactly one alert of the high-speed kind (type \<^verbatim>\<open>ALTA_VELOCIDADE\<close>),
  severity \<^verbatim>\<open>danger\<close>, when the vehicle has speed samples and their mean as NumPy
  computes it is strictly above 80, and none otherwise. Each test reads only its own
  quantity, so none, either or both fire. A span of at most 60 never raises the
  long-dwell alert; a span of at least \<open>60 + 1 / 2 ^ 47\<close> (and below \<open>2 ^ 53\<close>) always does.
\<close>

theorem alert_rules:
  assumes "vehicles a tid = Some v"
  shows "alerts (vehicle_exited np_mean a tid ts dir clk) =
           alerts a
           @ (if double_round (ts - entry_time v) > 60
              then [\<lparr>a_type = ''PERMANENCIA_LONGA'', a_track_id = m_track_id v,
                     a_message = Dwell_message (m_track_id v) (double_round (ts - entry_time v)),
                     a_timestamp = fst clk, a_severity = ''warning''\<rparr>]
              else [])
           @ (if speed_estimates v \<noteq> [] \<and> np_mean (speed_estimates v) > 80
              then [\<lparr>a_type = ''ALTA_VELOCIDADE'', a_track_id = m_track_id v,
                     a_message = Speed_message (m_track_id v) (np_mean (speed_estimates v)),
                     a_timestamp = snd clk, a_severity = ''danger''\<rparr>]
              else [])
       \<and> (ts - entry_time v \<le> 60 \<longrightarrow> \<not> double_round (ts - entry_time v) > 60)
       \<and> (60 + 1 / 2 ^ 47 \<le> ts - entry_time v \<and> ts - entry_time v < 2 ^ 53
            \<longrightarrow> double_round (ts - entry_time v) > 60)"
proof -
  have a: "alerts (vehicle_exited np_mean a tid ts dir clk) =
           alerts a
           @ (if double_round (ts - entry_time v) > 60
              then [\<lparr>a_type = ''PERMANENCIA_LONGA'', a_track_id = m_track_id v,
                     a_message = Dwell_message (m_track_id v) (double_round (ts - entry_time v)),
                     a_timestamp = fst clk, a_severity = ''warning''\<rparr>]
              else [])
           @ (if speed_estimates v \<noteq> [] \<and> np_mean (speed_estimates v) > 80
              then [\<lparr>a_type = ''ALTA_VELOCIDADE'', a_track_id = m_track_id v,
                     a_message = Speed_message (m_track_id v) (np_mean (speed_estimates v)),
                     a_timestamp = snd clk, a_severity = ''danger''\<rparr>]
              else [])"
    by (simp add: vehicle_exited_present[OF assms] exit_alerts_def dwell_alert_def
        speed_alert_def)
  have b: "ts - entry_time v \<le> 60 \<longrightarrow> \<not> double_round (ts - entry_time v) > 60"
    using span_at_most_60[of "ts - entry_time v"] by auto
  have c: "60 + 1 / 2 ^ 47 \<le> ts - entry_time v \<and> ts - entry_time v < 2 ^ 53
            \<longrightarrow> double_round (ts - entry_time v) > 60"
    using span_above_60[of "ts - entry_time v"] by auto
  show ?thesis using a b c by (intro conjI)
qed

text \<open>
  Entry at 0 and exit at 61 raise the long-dwell warning alone, exit at 60 raises
  nothing; a vehicle with samples 90 and 100 leaving at 61 raises both alerts, and
  leaving at 60 the high-speed one alone.
\<close>

theorem alert_rules_witness:
  "vehicles analytics_example 3 = Some vehicle_3
   \<and> alerts (vehicle_exited seq_mean analytics_example 3 61 ''entrada'' (1000, 1001)) =
       [\<lparr>a_type = ''PERMANENCIA_LONGA'', a_track_id = 3, a_message = Dwell_message 3 61,
         a_timestamp = 1000, a_severity = ''warning''\<rparr>]
   \<and> alerts (vehicle_exited seq_mean analytics_example 3 60 ''entrada'' (1000, 1001)) = []
   \<and> alerts (vehicle_exited seq_mean analytics_fast 3 61 ''saida'' (1000, 1001)) =
       [\<lparr>a_type = ''PERMANENCIA_LONGA'', a_track_id = 3, a_message = Dwell_message 3 61,
         a_timestamp = 1000, a_severity = ''warning''\<rparr>,
        \<lparr>a_type = ''ALTA_VELOCIDADE'', a_track_id = 3, a_message = Speed_message 3 95,
         a_timestamp = 1001, a_severity = ''danger''\<rparr>]
   \<and> alerts (vehicle_exited seq_mean analytics_fast 3 60 ''saida'' (1000, 1001)) =
       [\<lparr>a_type = ''ALTA_VELOCIDADE'', a_track_id = 3, a_message = Speed_message 3 95,
         a_timestamp = 1001, a_severity = ''danger''\<rparr>]"
proof -
  have e: "alerts analytics_example = []" "alerts analytics_fast = []"
    by (simp_all add: analytics_example_def analytics_fast_def AdvancedAnalytics_init_def)
  have v: "entry_time vehicle_3 = 0" "m_track_id vehicle_3 = 3" "speed_estimates vehicle_3 = []"
    by (simp_all add: vehicle_3_def VehicleMetrics_new_def)
  show ?thesis
    using alert_rules[OF example_vehicle, of seq_mean 61 "''entrada''" "(1000, 1001)"]
          alert_rules[OF example_vehicle, of seq_mean 60 "''entrada''" "(1000, 1001)"]
          alert_rules[OF fast_vehicle, of seq_mean 61 "''saida''" "(1000, 1001)"]
          alert_rules[OF fast_vehicle, of seq_mean 60 "''saida''" "(1000, 1001)"]
          example_vehicle
    by (simp add: e v seq_mean_90_100 double_round_numeral)
qed

text \<open>
  Entry at 0.1 and exit at 60.1, as doubles: the exit time exceeds the entry time by
  more than 60, the subtraction rounds to 60 and no alert is raised.
\<close>

theorem dwell_rounding_counterexample:
  "vehicles analytics_tenth 3 = Some vehicle_tenth
   \<and> entry_time vehicle_tenth = 3602879701896397 / 2 ^ 55
   \<and> 60 < 8458323050155213 / 2 ^ 47 - entry_time vehicle_tenth
   \<and> alerts (vehicle_exited seq_mean analytics_tenth 3 (8458323050155213 / 2 ^ 47)
               ''entrada'' (1000, 1001)) = []"
proof -
  have e: "entry_time vehicle_tenth = 3602879701896397 / 2 ^ 55"
    by (simp add: vehicle_tenth_def VehicleMetrics_new_def)
  have s: "speed_estimates vehicle_tenth = []"
    by (simp add: vehicle_tenth_def VehicleMetrics_new_def)
  have a: "alerts analytics_tenth = []"
    by (simp add: analytics_tenth_def AdvancedAnalytics_init_def)
  have d: "double_round (8458323050155213 / 2 ^ 47 - entry_time vehicle_tenth) = 60"
    unfolding e using double_dwell_boundary by simp
  have "alerts (vehicle_exited seq_mean analytics_tenth 3 (8458323050155213 / 2 ^ 47)
               ''entrada'' (1000, 1001)) = []"
    unfolding vehicle_exited_present[OF tenth_vehicle] exit_alerts_def d
    by (simp add: a s)
  moreover have "60 < 8458323050155213 / 2 ^ 47 - entry_time vehicle_tenth"
    unfolding e by simp
  ultimately show ?thesis using tenth_vehicle e by blast
qed

text \<open>
  Claim C9. \<^verbatim>\<open>vehicle_exited\<close> for a track id with no \<^verbatim>\<open>VehicleMetrics\<close> record returns
  normally and leaves the whole engine state as it was.
\<close>

theorem vehicle_exited_unknown_noop:
  "vehicles a tid = None \<Longrightarrow> vehicle_exited np_mean a tid ts dir clk = a"
  by (simp add: vehicle_exited_def)

theorem vehicle_exited_unknown_noop_witness:
  "vehicles analytics_example 4 = None
   \<and> vehicle_exited seq_mean analytics_example 4 61 ''entrada'' (1000, 1001) = analytics_example"
proof -
  have n: "vehicles analytics_example 4 = None"
    by (simp add: analytics_example_def AdvancedAnalytics_init_def)
  show ?thesis
    using vehicle_exited_unknown_noop[OF n, of seq_mean 61 "''entrada''" "(1000, 1001)"] n
    by simp
qed

text \<open>
  Claim C10. \<^verbatim>\<open>vehicle_exited\<close> does not enforce finalize-once. Every call for a known
  track stores the new exit time and direction, appends one dwell time, decrements
  \<^verbatim>\<open>vehicles_in_scene\<close> with a floor of 0 and appends the alerts of both rules; the track
  stays known with its entry time and speed samples, so a second call does all of it
  again and appends the alerts a second time.
\<close>

theorem vehicle_exited_not_once_only:
  assumes "vehicles a tid = Some v"
  shows "vehicles (vehicle_exited np_mean a tid ts dir clk) tid = Some (finalized v ts dir)
       \<and> exit_time (finalized v ts dir) = ts \<and> m_direction (finalized v ts dir) = dir
       \<and> dwell_times (vehicle_exited np_mean a tid ts dir clk)
           = dwell_times a @ [double_round (ts - entry_time v)]
       \<and> vehicles_in_scene (vehicle_exited np_mean a tid ts dir clk)
           = max 0 (vehicles_in_scene a - 1)
       \<and> alerts (vehicle_exited np_mean a tid ts dir clk)
           = alerts a @ exit_alerts np_mean v ts clk
       \<and> vehicles (vehicle_exited np_mean (vehicle_exited np_mean a tid ts dir clk)
                     tid ts' dir' clk') tid
           = Some (finalized (finalized v ts dir) ts' dir')
       \<and> alerts (vehicle_exited np_mean (vehicle_exited np_mean a tid ts dir clk)
                   tid ts' dir' clk')
           = alerts a @ exit_alerts np_mean v ts clk @ exit_alerts np_mean v ts' clk'
       \<and> dwell_times (vehicle_exited np_mean (vehicle_exited np_mean a tid ts dir clk)
                        tid ts' dir' clk')
           = dwell_times a @ [double_round (ts - entry_time v),
                              double_round (ts' - entry_time v)]
       \<and> vehicles_in_scene (vehicle_exited np_mean (vehicle_exited np_mean a tid ts dir clk)
                              tid ts' dir' clk')
           = max 0 (max 0 (vehicles_in_scene a - 1) - 1)"
proof -
  let ?a1 = "vehicle_exited np_mean a tid ts dir clk"
  have one: "?a1 = a\<lparr>vehicles := (vehicles a)(tid \<mapsto> finalized v ts dir),
             dwell_times := dwell_times a @ [double_round (ts - entry_time v)],
             vehicles_in_scene := max 0 (vehicles_in_scene a - 1),
             alerts := alerts a @ exit_alerts np_mean v ts clk\<rparr>"
    by (rule vehicle_exited_present[OF assms])
  then have p: "vehicles ?a1 tid = Some (finalized v ts dir)" by simp
  have two: "vehicle_exited np_mean ?a1 tid ts' dir' clk' =
      ?a1\<lparr>vehicles := (vehicles ?a1)(tid \<mapsto> finalized (finalized v ts dir) ts' dir'),
             dwell_times := dwell_times ?a1
                @ [double_round (ts' - entry_time (finalized v ts dir))],
             vehicles_in_scene := max 0 (vehicles_in_scene ?a1 - 1),
             alerts := alerts ?a1 @ exit_alerts np_mean (finalized v ts dir) ts' clk'\<rparr>"
    by (rule vehicle_exited_present[OF p])
  have a1: "alerts ?a1 = alerts a @ exit_alerts np_mean v ts clk" by (subst one) simp
  have d1: "dwell_times ?a1 = dwell_times a @ [double_round (ts - entry_time v)]"
    by (subst one) simp
  have v1: "vehicles_in_scene ?a1 = max 0 (vehicles_in_scene a - 1)" by (subst one) simp
  have p2: "vehicles (vehicle_exited np_mean ?a1 tid ts' dir' clk') tid
      = Some (finalized (finalized v ts dir) ts' dir')"
    by (subst two) simp
  have a2: "alerts (vehicle_exited np_mean ?a1 tid ts' dir' clk')
      = alerts a @ exit_alerts np_mean v ts clk @ exit_alerts np_mean v ts' clk'"
    by (subst two) (simp add: a1)
  have d2: "dwell_times (vehicle_exited np_mean ?a1 tid ts' dir' clk')
      = dwell_times a @ [double_round (ts - entry_time v), double_round (ts' - entry_time v)]"
    by (subst two) (simp add: d1)
  have v2: "vehicles_in_scene (vehicle_exited np_mean ?a1 tid ts' dir' clk')
      = max 0 (max 0 (vehicles_in_scene a - 1) - 1)"
    by (subst two) (simp add: v1)
  show ?thesis using p a1 d1 v1 p2 a2 d2 v2 by simp
qed

text \<open>
  Two calls for track 3 at time 61: two dwell times, the scene count floored at 0, and
  the same long-dwell warning twice.
\<close>

theorem vehicle_exited_not_once_only_witness:
  "vehicles analytics_example 3 = Some vehicle_3
   \<and> alerts (vehicle_exited seq_mean
               (vehicle_exited seq_mean analytics_example 3 61 ''entrada'' (1000, 1001))
               3 61 ''entrada'' (1000, 1001)) =
       [\<lparr>a_type = ''PERMANENCIA_LONGA'', a_track_id = 3, a_message = Dwell_message 3 61,
         a_timestamp = 1000, a_severity = ''warning''\<rparr>,
        \<lparr>a_type = ''PERMANENCIA_LONGA'', a_track_id = 3, a_message = Dwell_message 3 61,
         a_timestamp = 1000, a_severity = ''warning''\<rparr>]
   \<and> dwell_times (vehicle_exited seq_mean
               (vehicle_exited seq_mean analytics_example 3 61 ''entrada'' (1000, 1001))
               3 61 ''entrada'' (1000, 1001)) = [61, 61]
   \<and> vehicles_in_scene (vehicle_exited seq_mean
               (vehicle_exited seq_mean analytics_example 3 61 ''entrada'' (1000, 1001))
               3 61 ''entrada'' (1000, 1001)) = 0"
proof -
  have e: "alerts analytics_example = []" "dwell_times analytics_example = []"
    "vehicles_in_scene analytics_example = 1"
    by (simp_all add: analytics_example_def AdvancedAnalytics_init_def)
  have v: "entry_time vehicle_3 = 0" "m_track_id vehicle_3 = 3" "speed_estimates vehicle_3 = []"
    by (simp_all add: vehicle_3_def VehicleMetrics_new_def)
  show ?thesis
    using vehicle_exited_not_once_only[OF example_vehicle,
            of seq_mean 61 "''entrada''" "(1000, 1001)" 61 "''entrada''" "(1000, 1001)"]
          example_vehicle
    by (simp add: e v exit_alerts_def dwell_alert_def double_round_numeral)
qed

subsection \<open>Instantaneous speed\<close>








section \<open>The colour classifier\<close>

subsection \<open>The scan for the maximum\<close>

lemma splits_atI:
  "items = pre @ r # post \<Longrightarrow> (\<forall>y \<in> set pre. snd y < snd r)
     \<Longrightarrow> (\<forall>y \<in> set items. snd y \<le> snd r) \<Longrightarrow> splits_at items r"
  unfolding splits_at_def by blast

lemma splits_at_single: "splits_at [b] b"
  by (rule splits_atI[of _ "[]" _ "[]"]) simp_all

lemma splits_at_skip:
  assumes "splits_at (x # xs) r" and "snd b < snd x"
  shows "splits_at (b # x # xs) r"
proof -
  from assms(1) obtain pre post where s: "x # xs = pre @ r # post"
    and l: "\<forall>y \<in> set pre. snd y < snd r" and m: "\<forall>y \<in> set (x # xs). snd y \<le> snd r"
    unfolding splits_at_def by blast
  from m have "snd x \<le> snd r" by simp
  with assms(2) have b: "snd b < snd r" by simp
  have 1: "b # x # xs = (b # pre) @ r # post" using s by simp
  have 2: "\<forall>y \<in> set (b # pre). snd y < snd r" using l b by simp
  have 3: "\<forall>y \<in> set (b # x # xs). snd y \<le> snd r" using m b by simp
  show ?thesis by (rule splits_atI[OF 1 2 3])
qed

lemma splits_at_keep:
  assumes "splits_at (b # xs) r" and "\<not> snd b < snd x"
  shows "splits_at (b # x # xs) r"
proof -
  from assms(1) obtain pre post where s: "b # xs = pre @ r # post"
    and l: "\<forall>y \<in> set pre. snd y < snd r" and m: "\<forall>y \<in> set (b # xs). snd y \<le> snd r"
    unfolding splits_at_def by blast
  from m have bm: "snd b \<le> snd r" by simp
  with assms(2) have xm: "snd x \<le> snd r" by simp
  have 3: "\<forall>y \<in> set (b # x # xs). snd y \<le> snd r" using m xm by simp
  show ?thesis
  proof (cases pre)
    case Nil
    then have 1: "b # x # xs = [] @ r # (x # post)" using s by simp
    show ?thesis by (rule splits_atI[OF 1 _ 3]) simp
  next
    case (Cons p pre')
    then have pb: "p = b" and xs: "xs = pre' @ r # post" using s by simp_all
    have "snd b < snd r" using l Cons pb by simp
    with assms(2) have "snd x < snd r" by simp
    then have 2: "\<forall>y \<in> set (b # x # pre'). snd y < snd r"
      using l Cons pb by simp
    have 1: "b # x # xs = (b # x # pre') @ r # post" using xs by simp
    show ?thesis by (rule splits_atI[OF 1 2 3])
  qed
qed

lemma max_item_splits: "splits_at (best # xs) (max_item best xs)"
proof (induction xs arbitrary: best)
  case Nil
  show ?case by (simp add: splits_at_single)
next
  case (Cons x xs)
  show ?case
  proof (cases "snd best < snd x")
    case True
    then show ?thesis using splits_at_skip[OF Cons.IH[of x] True] by simp
  next
    case False
    then show ?thesis using splits_at_keep[OF Cons.IH[of best] False] by simp
  qed
qed

lemma find_split:
  "(\<forall>y \<in> set pre. \<not> P y) \<Longrightarrow> P r \<Longrightarrow> find P (pre @ r # post) = Some r"
  by (induction pre) auto

lemma splits_at_find:
  assumes "splits_at items r"
  shows "find (\<lambda>x. \<forall>y \<in> set items. snd y \<le> snd x) items = Some r"
proof -
  from assms obtain pre post where s: "items = pre @ r # post"
    and l: "\<forall>y \<in> set pre. snd y < snd r" and m: "\<forall>y \<in> set items. snd y \<le> snd r"
    unfolding splits_at_def by blast
  have rin: "r \<in> set items" by (subst s) simp
  have np: "\<forall>y \<in> set pre. \<not> (\<forall>z \<in> set items. snd z \<le> snd y)"
  proof
    fix y assume "y \<in> set pre"
    then have "snd y < snd r" using l by simp
    then have "\<not> snd r \<le> snd y" by simp
    then show "\<not> (\<forall>z \<in> set items. snd z \<le> snd y)" using rin by blast
  qed
  have "find (\<lambda>x. \<forall>y \<in> set items. snd y \<le> snd x) (pre @ r # post) = Some r"
    by (rule find_split[OF np m])
  then show ?thesis using s by simp
qed

lemma max_item_find:
  "find (\<lambda>x. \<forall>y \<in> set (best # xs). snd y \<le> snd x) (best # xs) = Some (max_item best xs)"
  by (rule splits_at_find[OF max_item_splits])


subsection \<open>The counter of a window\<close>

lemma first_occurrences_snoc: "first_occurrences (xs @ [x]) = (if x \<in> set xs then first_occurrences xs else first_occurrences xs @ [x])"
  by (simp add: first_occurrences_def)

lemma set_first_occurrences [simp]: "set (first_occurrences w) = set w"
  by (simp add: first_occurrences_def)

lemma count_list_snoc: "count_list (xs @ [x]) y = count_list xs y + (if x = y then 1 else 0)"
  by (induction xs) auto

lemma Counter_snoc: "Counter (xs @ [x]) = counter_add (Counter xs) x"
  by (simp add: Counter_def)

lemma Counter_eq: "Counter w = map (\<lambda>y. (y, count_list w y)) (first_occurrences w)"
proof (induction w rule: rev_induct)
  case Nil
  show ?case by (simp add: Counter_def first_occurrences_def)
next
  case (snoc x xs)
  have keys: "set (map fst (Counter xs)) = set xs"
    by (simp add: snoc.IH comp_def)
  show ?case
  proof (cases "x \<in> set xs")
    case True
    have "Counter (xs @ [x]) = map (\<lambda>(k, n). if k = x then (k, n + 1) else (k, n)) (Counter xs)"
      using True keys by (simp add: Counter_snoc counter_add_def)
    also have "\<dots> = map (\<lambda>y. (y, count_list (xs @ [x]) y)) (first_occurrences xs)"
      by (simp add: snoc.IH count_list_snoc)
    finally show ?thesis using True by (simp add: first_occurrences_snoc)
  next
    case False
    have "Counter (xs @ [x]) = Counter xs @ [(x, 1)]"
      using False keys by (simp add: Counter_snoc counter_add_def)
    also have "\<dots> = map (\<lambda>y. (y, count_list (xs @ [x]) y)) (first_occurrences xs @ [x])"
      using False by (auto simp: snoc.IH count_list_snoc)
    finally show ?thesis using False by (simp add: first_occurrences_snoc)
  qed
qed

lemma find_snoc:
  "find P (xs @ [x]) = (case find P xs of None \<Rightarrow> (if P x then Some x else None) | Some y \<Rightarrow> Some y)"
  by (induction xs) auto

lemma find_first_occurrences: "find P (first_occurrences w) = find P w"
proof (induction w rule: rev_induct)
  case Nil
  show ?case by (simp add: first_occurrences_def)
next
  case (snoc x xs)
  show ?case
  proof (cases "x \<in> set xs")
    case True
    show ?thesis
    proof (cases "find P xs")
      case None
      then have "\<not> P x" using True by (simp add: find_None_iff)
      then show ?thesis using True None snoc.IH by (simp add: first_occurrences_snoc find_snoc)
    next
      case (Some y)
      then show ?thesis using True snoc.IH by (simp add: first_occurrences_snoc find_snoc)
    qed
  next
    case False
    then show ?thesis using snoc.IH by (simp add: first_occurrences_snoc find_snoc)
  qed
qed

lemma find_map_key:
  "find Q (map g ks) = map_option g (find (\<lambda>k. Q (g k)) ks)"
  by (induction ks) auto

lemma most_common_first:
  assumes "w \<noteq> []"
  shows "\<exists>m. most_common_1 (Counter w) = [m] \<and> first_most_frequent w = Some (fst m)"
proof -
  have ne: "Counter w \<noteq> []" using assms by (simp add: Counter_eq first_occurrences_def)
  then obtain first rest where fr: "Counter w = first # rest" by (cases "Counter w") auto
  let ?m = "max_item first rest"
  have mc: "most_common_1 (Counter w) = [?m]" by (simp add: most_common_1_def fr)
  have "find (\<lambda>x. \<forall>y \<in> set (Counter w). snd y \<le> snd x) (Counter w) = Some ?m"
    unfolding fr by (rule max_item_find)
  then have "map_option (\<lambda>y. (y, count_list w y))
        (find (\<lambda>k. \<forall>y \<in> set w. count_list w y \<le> count_list w k) (first_occurrences w)) = Some ?m"
    by (simp add: Counter_eq find_map_key)
  then have "map_option (\<lambda>y. (y, count_list w y)) (first_most_frequent w) = Some ?m"
    by (simp add: find_first_occurrences first_most_frequent_def)
  then obtain z where z: "first_most_frequent w = Some z" and zm: "(z, count_list w z) = ?m"
    by auto
  from zm have "fst ?m = z" by (metis fst_conv)
  then have "first_most_frequent w = Some (fst ?m)" using z by simp
  then show ?thesis using mc by blast
qed


subsection \<open>Smoothing\<close>

lemma last_n_10_cases:
  "(if length h1 > 10 then last_n 10 h1 else h1) = last_n 10 h1"
  by (simp add: last_n_def)

lemma last_n_nonempty: "0 < n \<Longrightarrow> xs \<noteq> [] \<Longrightarrow> last_n n xs \<noteq> []"
  by (cases xs) (auto simp: last_n_def)

lemma last_n_last_n: "last_n n (last_n n xs @ ys) = last_n n (xs @ ys)"
proof (cases "n \<le> length xs")
  case True
  then have "length xs + length ys - (length xs - n + n) + (length xs - n)
      = length xs + length ys - n" by simp
  then show ?thesis using True by (simp add: last_n_def)
next
  case False
  then show ?thesis by (simp add: last_n_def)
qed

lemma last_n_exact: "length ys = n \<Longrightarrow> last_n n (xs @ ys) = ys"
  by (simp add: last_n_def)

lemma smooth_eq:
  "\<exists>lab. smooth h tid cur
        = Inr (h(tid \<mapsto> last_n 10 ((case h tid of None \<Rightarrow> [] | Some old \<Rightarrow> old) @ [cur])), lab)
      \<and> first_most_frequent (last_n 10 ((case h tid of None \<Rightarrow> [] | Some old \<Rightarrow> old) @ [cur]))
          = Some lab"
proof -
  let ?w = "last_n 10 ((case h tid of None \<Rightarrow> [] | Some old \<Rightarrow> old) @ [cur])"
  have "?w \<noteq> []" by (rule last_n_nonempty) simp_all
  from most_common_first[OF this] obtain m where
    m: "most_common_1 (Counter ?w) = [m]" and f: "first_most_frequent ?w = Some (fst m)" by blast
  have "smooth h tid cur = Inr (h(tid \<mapsto> ?w), fst m)"
    unfolding smooth_def Let_def last_n_10_cases by (simp add: m)
  then show ?thesis using f by blast
qed

lemma smooth_history:
  "\<exists>lab. smooth h tid cur = Inr (h(tid \<mapsto> last_n 10 (history_of h tid @ [cur])), lab)
      \<and> first_most_frequent (last_n 10 (history_of h tid @ [cur])) = Some lab"
  unfolding history_of_def by (rule smooth_eq)

lemma smooth_all_last:
  "raws \<noteq> [] \<Longrightarrow>
     \<exists>h' labs. smooth_all h tid raws = Inr (h', labs) \<and> length labs = length raws
        \<and> history_of h' tid = last_n 10 (history_of h tid @ raws)
        \<and> first_most_frequent (last_n 10 (history_of h tid @ raws)) = Some (last labs)"
proof (induction raws arbitrary: h)
  case Nil
  then show ?case by simp
next
  case (Cons c cs)
  from smooth_history[of h tid c] obtain lab where
    s: "smooth h tid c = Inr (h(tid \<mapsto> last_n 10 (history_of h tid @ [c])), lab)"
    and f: "first_most_frequent (last_n 10 (history_of h tid @ [c])) = Some lab" by blast
  let ?h1 = "h(tid \<mapsto> last_n 10 (history_of h tid @ [c]))"
  have h1: "history_of ?h1 tid = last_n 10 (history_of h tid @ [c])"
    by (simp add: history_of_def)
  show ?case
  proof (cases cs)
    case Nil
    then show ?thesis using s f h1 by simp
  next
    case (Cons d ds)
    then have "cs \<noteq> []" by simp
    from Cons.IH[OF this, of ?h1] obtain h' labs where
      r: "smooth_all ?h1 tid cs = Inr (h', labs)" and l: "length labs = length cs"
      and hh: "history_of h' tid = last_n 10 (history_of ?h1 tid @ cs)"
      and ff: "first_most_frequent (last_n 10 (history_of ?h1 tid @ cs)) = Some (last labs)"
      by blast
    have w: "last_n 10 (history_of ?h1 tid @ cs) = last_n 10 (history_of h tid @ c # cs)"
      unfolding h1 using last_n_last_n[of 10 "history_of h tid @ [c]" cs] by simp
    have ne: "labs \<noteq> []" using l \<open>cs \<noteq> []\<close> by auto
    have "smooth_all h tid (c # cs) = Inr (h', lab # labs)" using s r by simp
    moreover have "last (lab # labs) = last labs" using ne by simp
    ultimately show ?thesis using l hh ff w by simp
  qed
qed

lemma first_most_frequent_replicate: "first_most_frequent (replicate 10 c) = Some c"
proof -
  have "replicate 10 c = c # replicate 9 c" by (simp add: numeral_eq_Suc)
  moreover have "\<forall>y \<in> set (replicate 10 c). count_list (replicate 10 c) y \<le> count_list (replicate 10 c) c"
    by simp
  ultimately show ?thesis unfolding first_most_frequent_def by simp
qed

lemma first_most_frequent_6_4:
  "first_most_frequent (replicate 6 ''azul'' @ replicate 4 ''vermelho'') = Some ''azul''"
  by (simp add: first_most_frequent_def numeral_eq_Suc)

subsection \<open>Single-frame classification\<close>

lemma double_02:
  "double_round (1 / 5) = 3602879701896397 / 18014398509481984"
  using double_round_scaled[of "1 / 5" 55 "7205759403792794"] by simp

lemma double_015:
  "double_round (3 / 20) = 5404319552844595 / 36028797018963968"
  using double_round_scaled[of "3 / 20" 55 "5404319552844595"] by simp

lemma double_01:
  "double_round (1 / 10) = 3602879701896397 / 36028797018963968"
  using double_round_scaled[of "1 / 10" 56 "7205759403792794"] by simp

lemma double_5_02:
  "double_round (5 * (3602879701896397 / 18014398509481984)) = 1"
  using double_round_scaled[of "5 * (3602879701896397 / 18014398509481984)" 52 "4503599627370496"] by simp

lemma double_5_015:
  "double_round (5 * (5404319552844595 / 36028797018963968)) = 3 / 4"
  using double_round_scaled[of "5 * (5404319552844595 / 36028797018963968)" 53 "6755399441055744"] by simp

lemma py_literal_02: "py_literal 0.2 = Finite (3602879701896397 / 18014398509481984)"
  unfolding py_literal_def using double_02 by simp

lemma py_literal_015: "py_literal 0.15 = Finite (5404319552844595 / 36028797018963968)"
  unfolding py_literal_def using double_015 by simp

lemma py_literal_01: "py_literal 0.1 = Finite (3602879701896397 / 36028797018963968)"
  unfolding py_literal_def using double_01 by simp

lemma literal_small: "\<bar>3602879701896397 / 18014398509481984 :: real\<bar> \<le> 2 ^ 960" "\<bar>5404319552844595 / 36028797018963968 :: real\<bar> \<le> 2 ^ 960"
proof -
  have "(1::real) \<le> 2 ^ 960" by (rule one_le_power) simp
  then show "\<bar>3602879701896397 / 18014398509481984 :: real\<bar> \<le> 2 ^ 960" "\<bar>5404319552844595 / 36028797018963968 :: real\<bar> \<le> 2 ^ 960"
    by simp_all
qed

lemma margin_total:
  assumes "n < 2 ^ 25"
  shows "\<exists>m. int_of_product (int n) (py_literal 0.2) = Inr m"
    and "\<exists>m. int_of_product (int n) (py_literal 0.15) = Inr m"
proof -
  have "int n < 2 ^ 25" using assms by (metis of_nat_less_numeral_power_cancel_iff)
  then have b: "\<bar>int n\<bar> < 2 ^ 53" by simp
  show "\<exists>m. int_of_product (int n) (py_literal 0.2) = Inr m"
    unfolding py_literal_02
    using int_of_product_small[OF b product_in_range[OF b literal_small(1)]] by blast
  show "\<exists>m. int_of_product (int n) (py_literal 0.15) = Inr m"
    unfolding py_literal_015
    using int_of_product_small[OF b product_in_range[OF b literal_small(2)]] by blast
qed

lemma slice_index_le: "slice_index n i \<le> n"
  by (auto simp: slice_index_def max_def)

lemma slice2_shape:
  "shape0 (slice2 img r0 r1 c0 c1) \<le> shape0 img"
  "shape1 (slice2 img r0 r1 c0 c1) \<le> shape1 img"
proof -
  have "slice_index (shape0 img) r1 - slice_index (shape0 img) r0 \<le> shape0 img"
    using slice_index_le[of "shape0 img" r1] by simp
  then show "shape0 (slice2 img r0 r1 c0 c1) \<le> shape0 img" by (simp add: slice2_def Let_def)
  have "slice_index (shape1 img) c1 - slice_index (shape1 img) c0 \<le> shape1 img"
    using slice_index_le[of "shape1 img" c1] by simp
  then show "shape1 (slice2 img r0 r1 c0 c1) \<le> shape1 img" by (simp add: slice2_def Let_def)
qed

lemma center_region_total:
  assumes "shape0 roi < 2 ^ 25" and "shape1 roi < 2 ^ 25"
  shows "\<exists>R. center_region roi = Inr R
           \<and> shape0 R \<le> shape0 roi \<and> shape1 R \<le> shape1 roi
           \<and> (image_size roi \<noteq> 0 \<longrightarrow> shape0 R * shape1 R \<noteq> 0)"
proof -
  from margin_total(1)[OF assms(1)] obtain mh where
    mh: "int_of_product (int (shape0 roi)) (py_literal 0.2) = Inr mh" by blast
  from margin_total(2)[OF assms(2)] obtain mw where
    mw: "int_of_product (int (shape1 roi)) (py_literal 0.15) = Inr mw" by blast
  let ?c = "slice2 roi mh (int (shape0 roi) - mh) mw (int (shape1 roi) - mw)"
  have e: "center_region roi = (if image_size ?c = 0 then Inr roi else Inr ?c)"
    unfolding center_region_def Let_def mh mw by simp
  show ?thesis
  proof (cases "image_size ?c = 0")
    case True
    then show ?thesis unfolding e by (simp add: image_size_def)
  next
    case False
    then show ?thesis unfolding e using slice2_shape[of roi mh "int (shape0 roi) - mh" mw]
      by (simp add: image_size_def)
  qed
qed

lemma above_tenth_eq:
  assumes "cnt \<le> npix" and "npix < 2 ^ 50"
  shows "above_tenth cnt npix = Inr (npix < 10 * cnt)"
proof -
  define y where "y = real npix * (3602879701896397 / 36028797018963968)"
  have "real npix < real (2 ^ 50)" using assms(2) by (simp only: of_nat_less_iff)
  then have tb: "real npix < 2 ^ 50" by simp
  have cb: "real cnt \<le> real npix" using assms(1) by (simp only: of_nat_le_iff)
  have "int npix < int (2 ^ 50)" using assms(2) by (simp only: of_nat_less_iff)
  then have ib: "\<bar>int npix\<bar> < 2 ^ 53" by simp
  have f: "float_of_int (int npix) = Inr (Finite (real npix))"
    using float_of_int_small[OF ib] by simp
  have n0: "0 \<le> real npix" by simp
  have y0: "0 \<le> y" unfolding y_def using n0 by simp
  have y1: "y \<le> real npix" unfolding y_def using n0 by simp
  have yb: "\<bar>y\<bar> < 2 ^ 53" using y0 y1 tb by simp
  have "double_round y \<le> real_of_int (2 ^ 53)"
    by (rule double_round_le_int[OF _ yb]) (use yb in simp)
  moreover have "real_of_int 0 \<le> double_round y"
    by (rule double_round_ge_int[OF _ yb]) (use y0 in simp)
  ultimately have "\<bar>double_round y\<bar> \<le> 2 ^ 53" by simp
  moreover have "(2::real) ^ 53 < 2 ^ 1024" by (rule power_strict_increasing) simp_all
  ultimately have fin: "\<bar>double_round y\<bar> < 2 ^ 1024" by linarith
  have m: "fmul (Finite (real npix)) (py_literal 0.1) = Finite (double_round y)"
    unfolding py_literal_01 fmul_def prod.case pyfloat.case y_def[symmetric]
    by (rule to_double_finite[OF fin])
  have a: "above_tenth cnt npix = Inr (double_round y < real cnt)"
    unfolding above_tenth_def f sum.case m lt_real_def pyfloat.case by (rule refl)
  have "double_round y < real cnt \<longleftrightarrow> npix < 10 * cnt"
  proof
    assume lt: "npix < 10 * cnt"
    then have "Suc npix \<le> 10 * cnt" by simp
    then have "real (Suc npix) \<le> real (10 * cnt)" by (simp only: of_nat_le_iff)
    then have l: "real npix + 1 \<le> 10 * real cnt" by simp
    have e: "real_of_int (32 * int cnt - 1) / 2 ^ 5 = real cnt - 1 / 32" by simp
    have hi: "y \<le> real_of_int (32 * int cnt - 1) / 2 ^ 5"
    proof -
      have tb': "real npix < 1125899906842624" using tb by simp
      show ?thesis unfolding e y_def using tb' l n0 by linarith
    qed
    have "real npix < 1125899906842624" using tb by simp
    then have "y < 281474976710656" unfolding y_def using n0 by linarith
    then have ys: "\<bar>y\<bar> * 2 ^ 5 < 2 ^ 53" using y0 by simp
    have "double_round y \<le> real_of_int (32 * int cnt - 1) / 2 ^ 5"
      by (rule double_round_le_dyadic[OF hi ys]) simp
    then show "double_round y < real cnt" unfolding e by simp
  next
    assume d: "double_round y < real cnt"
    show "npix < 10 * cnt"
    proof (rule ccontr)
      assume "\<not> npix < 10 * cnt"
      then have "10 * cnt \<le> npix" by simp
      then have "real (10 * cnt) \<le> real npix" by (simp only: of_nat_le_iff)
      then have "10 * real cnt \<le> real npix" by simp
      then have "real_of_int (int cnt) \<le> y" unfolding y_def by simp
      then have "real_of_int (int cnt) \<le> double_round y"
        by (rule double_round_ge_int[OF _ yb])
      with d show False by simp
    qed
  qed
  then show ?thesis unfolding a by simp
qed

lemma count_mask_le: "count_mask img ranges \<le> shape0 img * shape1 img"
proof -
  have "count_mask img ranges \<le> length (List.product [0..<shape0 img] [0..<shape1 img])"
    unfolding count_mask_def by (rule length_filter_le)
  then show ?thesis by simp
qed

lemma label_count_le: "label_count cvt region l \<le> shape0 region * shape1 region"
  unfolding label_count_def using count_mask_le[of
      "\<lparr>shape0 = shape0 region, shape1 = shape1 region,
        pixel = (\<lambda>i j. cvt (pixel region i j))\<rparr>"]
  by (simp split: option.splits)

lemma counts_eq:
  "map (\<lambda>(color_name, ranges).
          (color_name, count_mask \<lparr>shape0 = shape0 region, shape1 = shape1 region,
                                   pixel = (\<lambda>i j. cvt (pixel region i j))\<rparr> ranges)) COLOR_RANGES
   = color_counts_of cvt region"
  by (simp add: COLOR_RANGES_def color_counts_of_def label_count_def)

lemma slice_nonempty:
  assumes "\<not> degenerate frame b" and "clip_bbox frame b = (x1, y1, x2, y2)"
  shows "image_size (slice2 frame y1 y2 x1 x2) \<noteq> 0"
proof -
  obtain bx1 by1 bx2 by2 where b: "b = (bx1, by1, bx2, by2)" by (cases b) auto
  from assms(2) have x1: "0 \<le> x1" and y1: "0 \<le> y1"
    and x2: "x2 \<le> int (shape1 frame)" and y2: "y2 \<le> int (shape0 frame)"
    by (auto simp: clip_bbox_def b)
  from assms have lt: "x1 < x2" "y1 < y2" by (auto simp: degenerate_def)
  have ny: "nat y2 \<le> shape0 frame" "nat y1 < nat y2" using y1 y2 lt by simp_all
  have nx: "nat x2 \<le> shape1 frame" "nat x1 < nat x2" using x1 x2 lt by simp_all
  have sy: "slice_index (shape0 frame) y2 = nat y2" "slice_index (shape0 frame) y1 = nat y1"
    using ny y1 lt by (simp_all add: slice_index_def)
  have sx: "slice_index (shape1 frame) x2 = nat x2" "slice_index (shape1 frame) x1 = nat x1"
    using nx x1 lt by (simp_all add: slice_index_def)
  have "0 < nat y2 - nat y1" "0 < nat x2 - nat x1" using ny nx by simp_all
  then have "0 < slice_index (shape0 frame) y2 - slice_index (shape0 frame) y1"
    and "0 < slice_index (shape1 frame) x2 - slice_index (shape1 frame) x1"
    by (simp_all add: sy sx)
  then show ?thesis by (simp add: slice2_def Let_def image_size_def)
qed

lemma indefinido_not_label: "''indefinido'' \<notin> set (map fst COLOR_RANGES)"
  by (simp add: COLOR_RANGES_def)

lemma color_counts_nonempty: "\<exists>first rest. color_counts_of cvt region = first # rest"
  by (simp add: color_counts_of_def COLOR_RANGES_def)

lemma max_item_of_counts:
  assumes "color_counts_of cvt region = first # rest"
  shows "fst (max_item first rest) \<in> set (map fst COLOR_RANGES)
       \<and> snd (max_item first rest) = label_count cvt region (fst (max_item first rest))
       \<and> (\<forall>l \<in> set (map fst COLOR_RANGES).
             label_count cvt region l \<le> snd (max_item first rest))"
proof -
  from max_item_splits[of first rest]
  obtain pre post where s: "first # rest = pre @ max_item first rest # post"
    and m: "\<forall>y \<in> set (first # rest). snd y \<le> snd (max_item first rest)"
    unfolding splits_at_def by blast
  have "max_item first rest \<in> set (first # rest)" by (subst s) simp
  then have mem: "max_item first rest \<in> set (color_counts_of cvt region)" using assms by simp
  have img: "set (color_counts_of cvt region)
      = (\<lambda>l. (l, label_count cvt region l)) ` set (map fst COLOR_RANGES)"
    unfolding color_counts_of_def by (rule set_map)
  from mem obtain l where l: "l \<in> set (map fst COLOR_RANGES)"
    and e: "max_item first rest = (l, label_count cvt region l)"
    unfolding img by (rule imageE)
  have "\<forall>k \<in> set (map fst COLOR_RANGES). label_count cvt region k \<le> snd (max_item first rest)"
  proof
    fix k assume "k \<in> set (map fst COLOR_RANGES)"
    then have "(k, label_count cvt region k) \<in> set (color_counts_of cvt region)"
      unfolding img by (rule imageI)
    then have "(k, label_count cvt region k) \<in> set (first # rest)" using assms by simp
    with m have "snd (k, label_count cvt region k) \<le> snd (max_item first rest)" by (rule bspec)
    then show "label_count cvt region k \<le> snd (max_item first rest)" by simp
  qed
  moreover have "fst (max_item first rest) = l" by (simp add: e)
  moreover have "snd (max_item first rest) = label_count cvt region l" by (simp add: e)
  ultimately show ?thesis using l by simp
qed

lemma classify_ints:
  assumes "bbox_ints bbox = Inr [b1, b2, b3, b4]"
    and "shape0 frame < 2 ^ 25" and "shape1 frame < 2 ^ 25"
  shows "\<exists>R. analysed_region frame (b1, b2, b3, b4) = Inr R
          \<and> classify cvt frame bbox =
              Inr (if degenerate frame (b1, b2, b3, b4) then ''indefinido''
                   else case color_counts_of cvt R of
                          [] \<Rightarrow> ''indefinido''
                        | first # rest \<Rightarrow>
                            if shape0 R * shape1 R < 10 * snd (max_item first rest)
                            then fst (max_item first rest) else ''indefinido'')"
proof -
  obtain x1 y1 x2 y2 where c: "clip_bbox frame (b1, b2, b3, b4) = (x1, y1, x2, y2)"
    by (cases "clip_bbox frame (b1, b2, b3, b4)") auto
  let ?roi = "slice2 frame y1 y2 x1 x2"
  have rs: "shape0 ?roi < 2 ^ 25" "shape1 ?roi < 2 ^ 25"
    using slice2_shape[of frame y1 y2 x1 x2] assms(2,3) by simp_all
  from center_region_total[OF rs] obtain R where R: "center_region ?roi = Inr R"
    and R0: "shape0 R \<le> shape0 ?roi" and R1: "shape1 R \<le> shape1 ?roi"
    and Rn: "image_size ?roi \<noteq> 0 \<longrightarrow> shape0 R * shape1 R \<noteq> 0" by blast
  have reg: "analysed_region frame (b1, b2, b3, b4) = Inr R"
    by (simp add: analysed_region_def c R)
  show ?thesis
  proof (cases "degenerate frame (b1, b2, b3, b4)")
    case True
    then have "x2 \<le> x1 \<or> y2 \<le> y1" by (simp add: degenerate_def c)
    then have "classify cvt frame bbox = Inr ''indefinido''"
      by (simp add: classify_def assms(1) c)
    then show ?thesis using True reg by simp
  next
    case False
    then have nd: "\<not> (x2 \<le> x1 \<or> y2 \<le> y1)" by (simp add: degenerate_def c)
    have ne: "image_size ?roi \<noteq> 0" by (rule slice_nonempty[OF False c])
    have cne: "shape0 R * shape1 R \<noteq> 0" using Rn ne by simp
    have cv: "cvtColor cvt R =
        Inr \<lparr>shape0 = shape0 R, shape1 = shape1 R, pixel = (\<lambda>i j. cvt (pixel R i j))\<rparr>"
      using cne by (simp add: cvtColor_def)
    obtain first rest where fr: "color_counts_of cvt R = first # rest"
      using color_counts_nonempty by blast
    have "shape0 R < 2 ^ 25" "shape1 R < 2 ^ 25" using R0 R1 rs by simp_all
    then have "shape0 R * shape1 R < 2 ^ 25 * 2 ^ 25"
      by (intro mult_strict_mono) simp_all
    then have tot: "shape0 R * shape1 R < 2 ^ 50" by simp
    from max_item_of_counts[OF fr]
    have "snd (max_item first rest) = label_count cvt R (fst (max_item first rest))" by blast
    then have le: "snd (max_item first rest) \<le> shape0 R * shape1 R"
      using label_count_le[of cvt R] by simp
    have th: "above_tenth (snd (max_item first rest)) (shape0 R * shape1 R)
        = Inr (shape0 R * shape1 R < 10 * snd (max_item first rest))"
      by (rule above_tenth_eq[OF le tot])
    have "classify cvt frame bbox =
        (if shape0 R * shape1 R < 10 * snd (max_item first rest)
         then Inr (fst (max_item first rest)) else Inr ''indefinido'')"
      unfolding classify_def assms(1) Let_def using nd ne
      by (simp add: c R cv counts_eq fr th)
    then show ?thesis using False reg fr by simp
  qed
qed

lemma bbox_ints_finite_box:
  "bbox_ints (finite_box a b c d) = Inr [py_trunc a, py_trunc b, py_trunc c, py_trunc d]"
  by (simp add: finite_box_def py_int_def)

lemma bbox_ints_Inr:
  "bbox_ints bbox = Inr ks \<Longrightarrow>
     length ks = length bbox \<and> (\<forall>c \<in> set bbox. \<exists>x. c = Some (Finite x))"
proof (induction bbox arbitrary: ks)
  case Nil
  then show ?case by simp
next
  case (Cons c cs)
  from Cons.prems obtain a k ks' where c: "c = Some a" and k: "py_int a = Inr k"
    and r: "bbox_ints cs = Inr ks'" and ks: "ks = k # ks'"
    by (auto split: option.splits sum.splits)
  from k obtain x where "a = Finite x" unfolding py_int_Inr by blast
  then show ?case using Cons.IH[OF r] c ks by simp
qed

lemma bbox_ints_Inl:
  "bbox_ints bbox = Inl e \<Longrightarrow> e \<in> {TypeError, ValueError, OverflowError}"
proof (induction bbox)
  case Nil
  then show ?case by simp
next
  case (Cons c cs)
  then show ?case
    by (auto simp: py_int_def split: option.splits sum.splits pyfloat.splits)
qed

lemma four_finite:
  assumes "length bbox = 4" and "\<forall>c \<in> set bbox. \<exists>x. c = Some (Finite x)"
  shows "\<exists>a b c d. bbox = finite_box a b c d"
proof -
  from assms(1) obtain c1 c2 c3 c4 where b: "bbox = [c1, c2, c3, c4]"
    by (auto simp: numeral_eq_Suc length_Suc_conv)
  from assms(2) obtain x1 where "c1 = Some (Finite x1)" unfolding b by auto
  moreover from assms(2) obtain x2 where "c2 = Some (Finite x2)" unfolding b by auto
  moreover from assms(2) obtain x3 where "c3 = Some (Finite x3)" unfolding b by auto
  moreover from assms(2) obtain x4 where "c4 = Some (Finite x4)" unfolding b by auto
  ultimately have "bbox = finite_box x1 x2 x3 x4" unfolding b finite_box_def by simp
  then show ?thesis by blast
qed

lemma unpack_other:
  "length ks \<noteq> 4 \<Longrightarrow>
     (case ks of [b1, b2, b3, b4] \<Rightarrow> f b1 b2 b3 b4 | _ \<Rightarrow> g) = g"
  by (auto split: list.splits)

lemma classify_malformed:
  assumes "\<nexists>a b c d. bbox = finite_box a b c d"
  shows "classify cvt frame bbox \<in> {Inl TypeError, Inl ValueError, Inl OverflowError}"
proof (cases "bbox_ints bbox")
  case (Inl e)
  then have "classify cvt frame bbox = Inl e" by (simp add: classify_def)
  then show ?thesis using bbox_ints_Inl[OF Inl] by auto
next
  case (Inr ks)
  from bbox_ints_Inr[OF Inr] have l: "length ks = length bbox"
    and f: "\<forall>c \<in> set bbox. \<exists>x. c = Some (Finite x)" by blast+
  have "length bbox \<noteq> 4" using four_finite[OF _ f] assms by blast
  then have "length ks \<noteq> 4" using l by simp
  then have "classify cvt frame bbox = Inl ValueError"
    unfolding classify_def Inr sum.case by (rule unpack_other)
  then show ?thesis by simp
qed

lemma classify_finite:
  assumes "shape0 frame < 2 ^ 25" and "shape1 frame < 2 ^ 25"
  shows "\<exists>lab R. classify cvt frame (finite_box a b c d) = Inr lab
     \<and> analysed_region frame (py_trunc a, py_trunc b, py_trunc c, py_trunc d) = Inr R
     \<and> (lab = ''indefinido'' \<or> lab \<in> set (map fst COLOR_RANGES))
     \<and> (degenerate frame (py_trunc a, py_trunc b, py_trunc c, py_trunc d)
          \<longrightarrow> lab = ''indefinido'')
     \<and> (lab \<noteq> ''indefinido'' \<longrightarrow>
          (\<forall>l \<in> set (map fst COLOR_RANGES). label_count cvt R l \<le> label_count cvt R lab)
          \<and> shape0 R * shape1 R < 10 * label_count cvt R lab)
     \<and> (\<not> degenerate frame (py_trunc a, py_trunc b, py_trunc c, py_trunc d)
          \<and> (\<exists>l \<in> set (map fst COLOR_RANGES). shape0 R * shape1 R < 10 * label_count cvt R l)
          \<longrightarrow> lab \<noteq> ''indefinido'')"
proof -
  let ?b = "(py_trunc a, py_trunc b, py_trunc c, py_trunc d)"
  let ?L = "set (map fst COLOR_RANGES)"
  from classify_ints[OF bbox_ints_finite_box assms, of a b c d cvt]
  obtain R where reg: "analysed_region frame ?b = Inr R"
    and cl: "classify cvt frame (finite_box a b c d) =
              Inr (if degenerate frame ?b then ''indefinido''
                   else case color_counts_of cvt R of
                          [] \<Rightarrow> ''indefinido''
                        | first # rest \<Rightarrow>
                            if shape0 R * shape1 R < 10 * snd (max_item first rest)
                            then fst (max_item first rest) else ''indefinido'')"
    by blast
  obtain first rest where fr: "color_counts_of cvt R = first # rest"
    using color_counts_nonempty by blast
  let ?m = "max_item first rest"
  from max_item_of_counts[OF fr] have
    k: "fst ?m \<in> ?L"
    and c: "snd ?m = label_count cvt R (fst ?m)"
    and mx: "\<forall>l \<in> ?L. label_count cvt R l \<le> snd ?m"
    by blast+
  have ni: "fst ?m \<noteq> ''indefinido''"
  proof
    assume "fst ?m = ''indefinido''"
    with k have "''indefinido'' \<in> ?L" by simp
    with indefinido_not_label show False by blast
  qed
  show ?thesis
  proof (cases "degenerate frame ?b")
    case True
    have "classify cvt frame (finite_box a b c d) = Inr ''indefinido''"
      unfolding cl by (simp add: True)
    then show ?thesis using True reg by blast
  next
    case False
    show ?thesis
    proof (cases "shape0 R * shape1 R < 10 * snd ?m")
      case True
      have cl': "classify cvt frame (finite_box a b c d) = Inr (fst ?m)"
        unfolding cl by (simp add: False True fr)
      have a: "\<forall>l \<in> ?L. label_count cvt R l \<le> label_count cvt R (fst ?m)"
        using mx unfolding c .
      have b: "shape0 R * shape1 R < 10 * label_count cvt R (fst ?m)"
        using True unfolding c .
      show ?thesis
        apply (rule exI[of _ "fst ?m"])
        apply (rule exI[of _ R])
        using cl' reg k ni False a b apply blast
        done
    next
      case nt: False
      have cl': "classify cvt frame (finite_box a b c d) = Inr ''indefinido''"
        unfolding cl by (simp add: False nt fr)
      have no: "\<not> (\<exists>l \<in> ?L. shape0 R * shape1 R < 10 * label_count cvt R l)"
      proof
        assume "\<exists>l \<in> ?L. shape0 R * shape1 R < 10 * label_count cvt R l"
        then obtain l where lin: "l \<in> ?L"
          and big: "shape0 R * shape1 R < 10 * label_count cvt R l" by blast
        from mx lin have "label_count cvt R l \<le> snd ?m" by (rule bspec)
        with big have "shape0 R * shape1 R < 10 * snd ?m" by linarith
        with nt show False by simp
      qed
      show ?thesis
        apply (rule exI[of _ "''indefinido''"])
        apply (rule exI[of _ R])
        using cl' reg no apply blast
        done
    qed
  qed
qed

lemma count_mask_uniform:
  "count_mask \<lparr>shape0 = a, shape1 = b, pixel = (\<lambda>i j. p)\<rparr> ranges
     = (if list_ex (in_range p) ranges then a * b else 0)"
  by (simp add: count_mask_def)

lemma blue_shape: "shape0 blue_frame < 2 ^ 25" "shape1 blue_frame < 2 ^ 25"
  by (simp_all add: blue_frame_def)

lemma blue_clip: "clip_bbox blue_frame (0, 0, 5, 5) = (0, 0, 5, 5)"
  by (simp add: clip_bbox_def blue_frame_def)

lemma blue_roi: "slice2 blue_frame 0 5 0 5 = blue_frame"
  by (simp add: slice2_def slice_index_def blue_frame_def Let_def)

lemma blue_margins:
  "int_of_product 5 (py_literal 0.2) = Inr 1"
  "int_of_product 5 (py_literal 0.15) = Inr 0"
proof -
  have a: "int_of_product 5 (py_literal 0.2) = Inr (py_trunc 1)"
    unfolding py_literal_02
    by (rule int_of_product_eval) (use double_5_02 in simp_all)
  have b: "int_of_product 5 (py_literal 0.15) = Inr (py_trunc (3 / 4))"
    unfolding py_literal_015
    by (rule int_of_product_eval) (use double_5_015 in simp_all)
  have t: "py_trunc 1 = 1" "py_trunc (3 / 4) = 0" by (simp_all add: py_trunc_def)
  show "int_of_product 5 (py_literal 0.2) = Inr 1" unfolding a t ..
  show "int_of_product 5 (py_literal 0.15) = Inr 0" unfolding b t ..
qed

lemma blue_center:
  "center_region blue_frame = Inr \<lparr>shape0 = 3, shape1 = 5, pixel = (\<lambda>i j. (100, 200, 200))\<rparr>"
proof -
  have s: "int (shape0 blue_frame) = 5" "int (shape1 blue_frame) = 5"
    by (simp_all add: blue_frame_def)
  show ?thesis unfolding center_region_def Let_def s blue_margins
    by (simp add: slice2_def slice_index_def blue_frame_def Let_def image_size_def)
qed

lemma blue_region:
  "analysed_region blue_frame (0, 0, 5, 5)
     = Inr \<lparr>shape0 = 3, shape1 = 5, pixel = (\<lambda>i j. (100, 200, 200))\<rparr>"
  by (simp add: analysed_region_def blue_clip blue_roi blue_center)

lemma blue_not_degenerate: "\<not> degenerate blue_frame (0, 0, 5, 5)"
  by (simp add: degenerate_def blue_clip)

lemma blue_counts:
  "color_counts_of (\<lambda>p. p) \<lparr>shape0 = 3, shape1 = 5, pixel = (\<lambda>i j. (100, 200, 200))\<rparr>
     = [(''vermelho'', 0), (''laranja'', 0), (''amarelo'', 0), (''verde'', 0), (''azul'', 15),
        (''roxo'', 0), (''rosa'', 0), (''branco'', 0), (''preto'', 0), (''cinza'', 0),
        (''prata'', 0)]"
  by (simp add: color_counts_of_def label_count_def COLOR_RANGES_def count_mask_uniform
      in_range_def)

lemma blue_trunc: "py_trunc 0 = 0" "py_trunc 5 = 5" "py_trunc 3 = 3" "py_trunc 2 = 2"
  "py_trunc 9 = 9"
  by (simp_all add: py_trunc_def)

lemma blue_classify: "classify (\<lambda>p. p) blue_frame (finite_box 0 0 5 5) = Inr ''azul''"
proof -
  from classify_ints[OF bbox_ints_finite_box blue_shape, of 0 0 5 5 "\<lambda>p. p"]
  show ?thesis unfolding blue_trunc
    by (simp add: blue_not_degenerate blue_region blue_counts)
qed

lemma degenerate_example: "degenerate blue_frame (3, 3, 2, 9)"
  by (simp add: degenerate_def clip_bbox_def blue_frame_def)

text \<open>
  Claim C8, as the code has it. For a frame of fewer than \<open>2 ^ 25\<close> rows and columns,
  \<^verbatim>\<open>classify\<close> returns a label exactly when the box is a list of four finite floats;
  on any other box (an entry that is \<^verbatim>\<open>None\<close>, NaN or infinite, or a length other
  than four) it raises \<^verbatim>\<open>TypeError\<close>, \<^verbatim>\<open>ValueError\<close> or \<^verbatim>\<open>OverflowError\<close>. On a box of
  four finite floats the label is \<^verbatim>\<open>indefinido\<close> or a label of the taxonomy (the
  conversion to HSV is never given an empty region); it is \<^verbatim>\<open>indefinido\<close> whenever the
  truncated box clipped to the frame has width or height at most 0. A colour label is
  returned only when its count of matching pixels is the maximum over the taxonomy and
  ten times that count strictly exceeds the number of pixels of the analysed region;
  when the box is not degenerate and some label passes that threshold, a colour label is
  returned.
\<close>

theorem classify_total:
  assumes "shape0 frame < 2 ^ 25" and "shape1 frame < 2 ^ 25"
  shows "((\<exists>lab. classify cvt frame bbox = Inr lab)
           \<longleftrightarrow> (\<exists>a b c d. bbox = finite_box a b c d))
     \<and> ((\<nexists>a b c d. bbox = finite_box a b c d) \<longrightarrow>
           classify cvt frame bbox \<in> {Inl TypeError, Inl ValueError, Inl OverflowError})
     \<and> (\<exists>lab R. classify cvt frame (finite_box a b c d) = Inr lab
         \<and> analysed_region frame (py_trunc a, py_trunc b, py_trunc c, py_trunc d) = Inr R
         \<and> (lab = ''indefinido'' \<or> lab \<in> set (map fst COLOR_RANGES))
         \<and> (degenerate frame (py_trunc a, py_trunc b, py_trunc c, py_trunc d)
              \<longrightarrow> lab = ''indefinido'')
         \<and> (lab \<noteq> ''indefinido'' \<longrightarrow>
              (\<forall>l \<in> set (map fst COLOR_RANGES).
                  label_count cvt R l \<le> label_count cvt R lab)
              \<and> shape0 R * shape1 R < 10 * label_count cvt R lab)
         \<and> (\<not> degenerate frame (py_trunc a, py_trunc b, py_trunc c, py_trunc d)
              \<and> (\<exists>l \<in> set (map fst COLOR_RANGES).
                    shape0 R * shape1 R < 10 * label_count cvt R l)
              \<longrightarrow> lab \<noteq> ''indefinido''))"
proof -
  have m: "(\<nexists>a b c d. bbox = finite_box a b c d) \<longrightarrow>
           classify cvt frame bbox \<in> {Inl TypeError, Inl ValueError, Inl OverflowError}"
    using classify_malformed[of bbox cvt frame] by blast
  have "(\<exists>lab. classify cvt frame bbox = Inr lab) \<longleftrightarrow> (\<exists>a b c d. bbox = finite_box a b c d)"
  proof
    assume "\<exists>lab. classify cvt frame bbox = Inr lab"
    then obtain lab where l: "classify cvt frame bbox = Inr lab" by blast
    show "\<exists>a b c d. bbox = finite_box a b c d"
    proof (rule ccontr)
      assume "\<nexists>a b c d. bbox = finite_box a b c d"
      with m have "classify cvt frame bbox \<in> {Inl TypeError, Inl ValueError, Inl OverflowError}"
        by blast
      with l show False by auto
    qed
  next
    assume "\<exists>a b c d. bbox = finite_box a b c d"
    then obtain a b c d where b: "bbox = finite_box a b c d" by blast
    from classify_finite[OF assms, of cvt a b c d] show "\<exists>lab. classify cvt frame bbox = Inr lab"
      unfolding b by blast
  qed
  then show ?thesis using m classify_finite[OF assms, of cvt a b c d] by blast
qed

text \<open>
  On the example frame the full box is classified \<^verbatim>\<open>azul\<close>, all 15 pixels of the analysed
  region matching; a box whose right edge is left of its left edge gives \<^verbatim>\<open>indefinido\<close>.
\<close>

theorem classify_total_witness:
  "shape0 blue_frame < 2 ^ 25 \<and> shape1 blue_frame < 2 ^ 25
   \<and> classify (\<lambda>p. p) blue_frame (finite_box 0 0 5 5) = Inr ''azul''
   \<and> \<not> degenerate blue_frame (0, 0, 5, 5)
   \<and> analysed_region blue_frame (0, 0, 5, 5)
       = Inr \<lparr>shape0 = 3, shape1 = 5, pixel = (\<lambda>i j. (100, 200, 200))\<rparr>
   \<and> label_count (\<lambda>p. p) \<lparr>shape0 = 3, shape1 = 5, pixel = (\<lambda>i j. (100, 200, 200))\<rparr>
        ''azul'' = 15
   \<and> degenerate blue_frame (3, 3, 2, 9)
   \<and> classify (\<lambda>p. p) blue_frame (finite_box 3 3 2 9) = Inr ''indefinido''"
proof -
  from classify_total[OF blue_shape, of "\<lambda>p. p" "[]" 3 3 2 9]
  obtain lab where c: "classify (\<lambda>p. p) blue_frame (finite_box 3 3 2 9) = Inr lab"
    and d: "degenerate blue_frame (py_trunc 3, py_trunc 3, py_trunc 2, py_trunc 9)
              \<longrightarrow> lab = ''indefinido''" by blast
  from d degenerate_example have "lab = ''indefinido''" unfolding blue_trunc by (rule mp)
  with c have c': "classify (\<lambda>p. p) blue_frame (finite_box 3 3 2 9) = Inr ''indefinido''"
    by simp
  have cnt: "label_count (\<lambda>p. p) \<lparr>shape0 = 3, shape1 = 5, pixel = (\<lambda>i j. (100, 200, 200))\<rparr>
        ''azul'' = 15"
    by (simp add: label_count_def COLOR_RANGES_def count_mask_uniform in_range_def)
  show ?thesis
    using blue_shape blue_classify c' blue_not_degenerate degenerate_example cnt blue_region
    by simp
qed

text \<open>
  Malformed boxes on the example frame: a NaN coordinate and a box of three entries
  raise \<^verbatim>\<open>ValueError\<close>, an infinite coordinate \<^verbatim>\<open>OverflowError\<close>, a missing one
  \<^verbatim>\<open>TypeError\<close>.
\<close>

theorem classify_malformed_counterexample:
  "classify (\<lambda>p. p) blue_frame [Some (Finite 0), Some NaN, Some (Finite 5), Some (Finite 5)]
     = Inl ValueError
   \<and> classify (\<lambda>p. p) blue_frame [Some (Finite 0), Some (Finite 0), Some (Finite 5)]
     = Inl ValueError
   \<and> classify (\<lambda>p. p) blue_frame [Some (Finite 0), Some (Finite 0), Some PosInf, Some (Finite 5)]
     = Inl OverflowError
   \<and> classify (\<lambda>p. p) blue_frame [Some (Finite 0), None, Some (Finite 5), Some (Finite 5)]
     = Inl TypeError"
  by (simp add: classify_def py_int_def)

text \<open>
  Claim C6, as the code has it. \<^verbatim>\<open>classify_with_smoothing\<close> appends the single-frame
  label to the track's window, keeps the last 10 entries and returns the most frequent
  label of the window; among labels of equal count the one met first in the window, in
  insertion order, wins (the order of \<^verbatim>\<open>Counter.most_common\<close>), not the most recently
  inserted one. After any non-empty run of calls the window is the last 10 entries of the
  old history followed by the run. Ten calls with the same label return that label, and
  six \<^verbatim>\<open>azul\<close> followed by four \<^verbatim>\<open>vermelho\<close> return \<^verbatim>\<open>azul\<close>, from any earlier history.
\<close>

theorem color_smoothing:
  assumes "classify cvt frame bbox = Inr cur"
  shows "(\<exists>lab. classify_with_smoothing cvt h tid frame bbox
              = Inr (h(tid \<mapsto> last_n 10 (history_of h tid @ [cur])), lab)
            \<and> first_most_frequent (last_n 10 (history_of h tid @ [cur])) = Some lab)
       \<and> (raws \<noteq> [] \<longrightarrow>
            (\<exists>h' labs. smooth_all h tid raws = Inr (h', labs) \<and> length labs = length raws
               \<and> history_of h' tid = last_n 10 (history_of h tid @ raws)
               \<and> first_most_frequent (last_n 10 (history_of h tid @ raws)) = Some (last labs)))
       \<and> (\<exists>h' labs. smooth_all h tid (replicate 10 c) = Inr (h', labs) \<and> last labs = c)
       \<and> (\<exists>h' labs. smooth_all h tid (replicate 6 ''azul'' @ replicate 4 ''vermelho'')
              = Inr (h', labs) \<and> last labs = ''azul'')"
proof -
  have one: "\<exists>lab. classify_with_smoothing cvt h tid frame bbox
              = Inr (h(tid \<mapsto> last_n 10 (history_of h tid @ [cur])), lab)
            \<and> first_most_frequent (last_n 10 (history_of h tid @ [cur])) = Some lab"
    using smooth_history[of h tid cur] by (simp add: classify_with_smoothing_def assms)
  have many: "raws \<noteq> [] \<longrightarrow>
            (\<exists>h' labs. smooth_all h tid raws = Inr (h', labs) \<and> length labs = length raws
               \<and> history_of h' tid = last_n 10 (history_of h tid @ raws)
               \<and> first_most_frequent (last_n 10 (history_of h tid @ raws)) = Some (last labs))"
    using smooth_all_last[of raws h tid] by blast
  have ten: "\<exists>h' labs. smooth_all h tid (replicate 10 c) = Inr (h', labs) \<and> last labs = c"
  proof -
    have ne: "replicate 10 c \<noteq> []" by simp
    have w: "last_n 10 (history_of h tid @ replicate 10 c) = replicate 10 c"
      by (rule last_n_exact) simp
    from smooth_all_last[OF ne, of h tid] obtain h' labs where
      "smooth_all h tid (replicate 10 c) = Inr (h', labs)"
      and "first_most_frequent (last_n 10 (history_of h tid @ replicate 10 c)) = Some (last labs)"
      by blast
    then show ?thesis unfolding w first_most_frequent_replicate by auto
  qed
  have six: "\<exists>h' labs. smooth_all h tid (replicate 6 ''azul'' @ replicate 4 ''vermelho'')
              = Inr (h', labs) \<and> last labs = ''azul''"
  proof -
    let ?r = "replicate 6 ''azul'' @ replicate 4 ''vermelho''"
    have ne: "?r \<noteq> []" by simp
    have w: "last_n 10 (history_of h tid @ ?r) = ?r"
      by (rule last_n_exact) simp
    from smooth_all_last[OF ne, of h tid] obtain h' labs where
      "smooth_all h tid ?r = Inr (h', labs)"
      and "first_most_frequent (last_n 10 (history_of h tid @ ?r)) = Some (last labs)"
      by blast
    then show ?thesis unfolding w first_most_frequent_6_4 by auto
  qed
  show ?thesis using one many ten six by blast
qed

text \<open>
  On the example frame a first call for track 7 stores the window of the one label and
  returns it; the labels \<^verbatim>\<open>azul\<close>, \<^verbatim>\<open>vermelho\<close>, \<^verbatim>\<open>vermelho\<close> return \<^verbatim>\<open>azul\<close>, \<^verbatim>\<open>azul\<close>
  (the tie goes to the label met first) and \<^verbatim>\<open>vermelho\<close>.
\<close>

theorem color_smoothing_witness:
  "classify (\<lambda>p. p) blue_frame (finite_box 0 0 5 5) = Inr ''azul''
   \<and> classify_with_smoothing (\<lambda>p. p) Map.empty 7 blue_frame (finite_box 0 0 5 5)
       = Inr ([7 \<mapsto> [''azul'']], ''azul'')
   \<and> (\<exists>h'. smooth_all Map.empty 7 [''azul'', ''vermelho'', ''vermelho'']
              = Inr (h', [''azul'', ''azul'', ''vermelho'']))"
proof -
  have w: "last_n 10 (history_of Map.empty 7 @ [''azul'']) = [''azul'']"
    by (simp add: history_of_def last_n_def)
  have f: "first_most_frequent [''azul''] = Some ''azul''"
    by (simp add: first_most_frequent_def)
  from color_smoothing[OF blue_classify, of Map.empty 7 "[''azul'', ''vermelho'', ''vermelho'']"]
  obtain lab where "classify_with_smoothing (\<lambda>p. p) Map.empty 7 blue_frame (finite_box 0 0 5 5)
              = Inr (Map.empty(7 \<mapsto> last_n 10 (history_of Map.empty 7 @ [''azul''])), lab)"
    and "first_most_frequent (last_n 10 (history_of Map.empty 7 @ [''azul''])) = Some lab"
    by blast
  then have a: "classify_with_smoothing (\<lambda>p. p) Map.empty 7 blue_frame (finite_box 0 0 5 5)
       = Inr ([7 \<mapsto> [''azul'']], ''azul'')" unfolding w f by simp
  have b: "\<exists>h'. smooth_all Map.empty 7 [''azul'', ''vermelho'', ''vermelho'']
              = Inr (h', [''azul'', ''azul'', ''vermelho''])"
    by (simp add: smooth_def Let_def Counter_def counter_add_def most_common_1_def)
  show ?thesis using blue_classify a b by simp
qed

text \<open>
  The tie of \<^verbatim>\<open>azul\<close> then \<^verbatim>\<open>vermelho\<close> on a fresh track: the second call returns
  \<^verbatim>\<open>azul\<close>, where a scan from the most recently inserted label gives \<^verbatim>\<open>vermelho\<close>.
\<close>

theorem tie_break_counterexample:
  "map_sum id snd (smooth_all Map.empty 1 [''azul'', ''vermelho'']) = Inr [''azul'', ''azul'']
   \<and> spec_most_recent_mode [''azul'', ''vermelho''] = Some ''vermelho''"
  by (simp add: smooth_def Let_def Counter_def counter_add_def most_common_1_def
      spec_most_recent_mode_def first_most_frequent_def)

end
